theory Spec2Isabelle
  imports Complex_Main
begin

section \<open>Text primitives\<close>

text \<open>
  Python strings are modelled as HOL strings, and the model covers ASCII text only: the
  character classes, the case mappings and the white space below are those Python uses on
  code points below 128. On other characters Python's classes are larger (U+00A0 is white
  space, U+00E9 is a word character, U+00C9 has a lower-case form) and the definitions
  below say nothing about them. Every statement about text therefore carries the
  hypothesis \<open>ascii\<close> on the text it reads, or is about a concrete ASCII text.
\<close>

definition ascii :: "string \<Rightarrow> bool" where
  \<comment> \<open>every character is a code point below 128\<close>
  "ascii s = list_all (\<lambda>c. (of_char c :: nat) < 128) s"

definition ascii_opt :: "string option \<Rightarrow> bool" where
  \<comment> \<open>an optional text that is absent or ASCII\<close>
  "ascii_opt x = (case x of None \<Rightarrow> True | Some s \<Rightarrow> ascii s)"

definition is_space :: "char \<Rightarrow> bool" where
  \<comment> \<open>\<open>str.isspace\<close> and the class \<open>\s\<close> on ASCII: tab, newline, VT, FF, CR, FS, GS, RS, US,
      space\<close>
  "is_space c = (let n = (of_char c :: nat) in n = 32 \<or> (9 \<le> n \<and> n \<le> 13) \<or> (28 \<le> n \<and> n \<le> 31))"

definition is_digit :: "char \<Rightarrow> bool" where
  \<comment> \<open>the class \<open>\d\<close>\<close>
  "is_digit c = (let n = (of_char c :: nat) in 48 \<le> n \<and> n \<le> 57)"

definition is_upper :: "char \<Rightarrow> bool" where
  "is_upper c = (let n = (of_char c :: nat) in 65 \<le> n \<and> n \<le> 90)"

definition is_lower :: "char \<Rightarrow> bool" where
  "is_lower c = (let n = (of_char c :: nat) in 97 \<le> n \<and> n \<le> 122)"

definition is_word :: "char \<Rightarrow> bool" where
  \<comment> \<open>the class \<open>\w\<close> on ASCII: letters, digits and the underscore\<close>
  "is_word c = (is_upper c \<or> is_lower c \<or> is_digit c \<or> c = CHR ''_'')"

definition lower_char :: "char \<Rightarrow> char" where
  \<comment> \<open>the lower-case form of an ASCII character\<close>
  "lower_char c = (if is_upper c then char_of ((of_char c :: nat) + 32) else c)"

definition upper_char :: "char \<Rightarrow> char" where
  \<comment> \<open>the upper-case form of an ASCII character\<close>
  "upper_char c = (if is_lower c then char_of ((of_char c :: nat) - 32) else c)"

definition lower :: "string \<Rightarrow> string" where
  \<comment> \<open>\<open>str.lower\<close>\<close>
  "lower s = map lower_char s"

definition upper :: "string \<Rightarrow> string" where
  \<comment> \<open>\<open>str.upper\<close>\<close>
  "upper s = map upper_char s"

definition strip :: "string \<Rightarrow> string" where
  \<comment> \<open>\<open>str.strip\<close> with no argument\<close>
  "strip s = rev (dropWhile is_space (rev (dropWhile is_space s)))"

fun starts_with :: "string \<Rightarrow> string \<Rightarrow> bool" where
  "starts_with [] s = True"
| "starts_with (p # ps) [] = False"
| "starts_with (p # ps) (c # cs) = (p = c \<and> starts_with ps cs)"

fun py_in :: "string \<Rightarrow> string \<Rightarrow> bool" where
  \<comment> \<open>\<open>sub in s\<close> on strings\<close>
  "py_in sub [] = (sub = [])"
| "py_in sub (c # cs) = (starts_with sub (c # cs) \<or> py_in sub cs)"

fun join :: "string \<Rightarrow> string list \<Rightarrow> string" where
  \<comment> \<open>\<open>sep.join(xs)\<close>\<close>
  "join sep [] = []"
| "join sep [x] = x"
| "join sep (x # y # ys) = x @ sep @ join sep (y # ys)"

definition newline :: char where
  "newline = CHR 0x0A"

section \<open>Regular expressions with the search order of Python's \<open>re\<close>\<close>

text \<open>
  A pattern is a term of \<open>rx\<close>. The matcher returns, for a pattern and a position, every
  way the pattern can match there, in the order in which a backtracking matcher tries
  them: the first element is the match Python reports. A position is the character before
  it (if any), the text that remains, and the groups captured so far.
\<close>

datatype rx =
    Cls "char \<Rightarrow> bool"
  | Eps
  | Seq rx rx
  | Alt rx rx
  | Star rx
  | LazyStar rx
  | Grp nat rx
  | Ahead rx
  | NotAhead rx
  | Bol
  | Eol
  | WordB

type_synonym mstate = "char option \<times> string \<times> (nat \<times> string) list"

fun remaining :: "mstate \<Rightarrow> string" where
  "remaining (pc, s, g) = s"

fun groups :: "mstate \<Rightarrow> (nat \<times> string) list" where
  "groups (pc, s, g) = g"

fun advances :: "mstate \<Rightarrow> mstate \<Rightarrow> bool" where
  "advances (pc, s, g) (pc', s', g') = (length s' < length s)"

fun star_iter :: "(mstate \<Rightarrow> mstate list) \<Rightarrow> nat \<Rightarrow> mstate \<Rightarrow> mstate list" where
  \<comment> \<open>greedy: one more round of the body first, then stop; a round must consume text\<close>
  "star_iter f 0 st = [st]"
| "star_iter f (Suc k) st = concat (map (star_iter f k) (filter (advances st) (f st))) @ [st]"

fun lazy_iter :: "(mstate \<Rightarrow> mstate list) \<Rightarrow> nat \<Rightarrow> mstate \<Rightarrow> mstate list" where
  \<comment> \<open>lazy: stop first, then one more round of the body\<close>
  "lazy_iter f 0 st = [st]"
| "lazy_iter f (Suc k) st = st # concat (map (lazy_iter f k) (filter (advances st) (f st)))"

fun set_group :: "nat \<Rightarrow> string \<Rightarrow> mstate \<Rightarrow> mstate" where
  "set_group n s (pc', s', g') = (pc', s', (n, take (length s - length s') s) # g')"

fun word_boundary :: "char option \<Rightarrow> string \<Rightarrow> bool" where
  "word_boundary None [] = False"
| "word_boundary None (c # cs) = is_word c"
| "word_boundary (Some p) [] = is_word p"
| "word_boundary (Some p) (c # cs) = (is_word p \<noteq> is_word c)"

primrec rx_match :: "rx \<Rightarrow> mstate \<Rightarrow> mstate list" where
  "rx_match (Cls p) st =
     (case st of (pc, s, g) \<Rightarrow>
        (case s of [] \<Rightarrow> [] | c # cs \<Rightarrow> if p c then [(Some c, cs, g)] else []))"
| "rx_match Eps st = [st]"
| "rx_match (Seq a b) st = concat (map (rx_match b) (rx_match a st))"
| "rx_match (Alt a b) st = rx_match a st @ rx_match b st"
| "rx_match (Star r) st = star_iter (rx_match r) (length (remaining st)) st"
| "rx_match (LazyStar r) st = lazy_iter (rx_match r) (length (remaining st)) st"
| "rx_match (Grp n r) st = map (set_group n (remaining st)) (rx_match r st)"
| "rx_match (Ahead r) st = (if rx_match r st = [] then [] else [st])"
| "rx_match (NotAhead r) st = (if rx_match r st = [] then [st] else [])"
| "rx_match Bol st = (case st of (pc, s, g) \<Rightarrow> if pc = None then [st] else [])"
| "rx_match Eol st =
     (case st of (pc, s, g) \<Rightarrow> if s = [] \<or> s = [newline] then [st] else [])"
| "rx_match WordB st = (case st of (pc, s, g) \<Rightarrow> if word_boundary pc s then [st] else [])"

fun search_from :: "rx \<Rightarrow> char option \<Rightarrow> string \<Rightarrow> (nat \<times> string) list option" where
  \<comment> \<open>the leftmost start at which the pattern matches, and there the first match\<close>
  "search_from r pc [] = (case rx_match r (pc, [], []) of [] \<Rightarrow> None | st # _ \<Rightarrow> Some (groups st))"
| "search_from r pc (c # cs) =
     (case rx_match r (pc, c # cs, []) of
        [] \<Rightarrow> search_from r (Some c) cs
      | st # _ \<Rightarrow> Some (groups st))"

definition re_search :: "rx \<Rightarrow> string \<Rightarrow> (nat \<times> string) list option" where
  \<comment> \<open>\<open>re.search\<close>: the groups of the match, or None\<close>
  "re_search r s = search_from r None s"

definition re_match :: "rx \<Rightarrow> string \<Rightarrow> (nat \<times> string) list option" where
  \<comment> \<open>\<open>re.match\<close>: a match at the start of the text only\<close>
  "re_match r s = (case rx_match r (None, s, []) of [] \<Rightarrow> None | st # _ \<Rightarrow> Some (groups st))"

definition group :: "(nat \<times> string) list \<Rightarrow> nat \<Rightarrow> string option" where
  \<comment> \<open>\<open>m.group(n)\<close>; None when the group took no part in the match\<close>
  "group g n = map_of g n"

subsection \<open>Pattern notation\<close>

definition ch :: "char \<Rightarrow> char \<Rightarrow> bool" where
  "ch c = (\<lambda>x. x = c)"

definition ci :: "(char \<Rightarrow> bool) \<Rightarrow> char \<Rightarrow> bool" where
  \<comment> \<open>a class under \<open>re.IGNORECASE\<close>\<close>
  "ci p = (\<lambda>x. p (lower_char x) \<or> p (upper_char x))"

definition lit :: "string \<Rightarrow> rx" where
  "lit w = foldr (\<lambda>c r. Seq (Cls (ch c)) r) w Eps"

definition lit_ci :: "string \<Rightarrow> rx" where
  \<comment> \<open>a literal under \<open>re.IGNORECASE\<close>\<close>
  "lit_ci w = foldr (\<lambda>c r. Seq (Cls (ci (ch c))) r) w Eps"

definition Plus :: "rx \<Rightarrow> rx" where
  "Plus r = Seq r (Star r)"

definition LazyPlus :: "rx \<Rightarrow> rx" where
  "LazyPlus r = Seq r (LazyStar r)"

definition Opt :: "rx \<Rightarrow> rx" where
  "Opt r = Alt r Eps"

fun times :: "nat \<Rightarrow> rx \<Rightarrow> rx" where
  \<comment> \<open>\<open>r{n}\<close>\<close>
  "times 0 r = Eps"
| "times (Suc n) r = Seq r (times n r)"

fun upto_times :: "nat \<Rightarrow> rx \<Rightarrow> rx" where
  \<comment> \<open>\<open>r{0,n}\<close>, greedy\<close>
  "upto_times 0 r = Eps"
| "upto_times (Suc n) r = Opt (Seq r (upto_times n r))"

definition between_times :: "nat \<Rightarrow> nat \<Rightarrow> rx \<Rightarrow> rx" where
  \<comment> \<open>\<open>r{lo,hi}\<close>, greedy\<close>
  "between_times lo hi r = Seq (times lo r) (upto_times (hi - lo) r)"

fun seqs :: "rx list \<Rightarrow> rx" where
  "seqs [] = Eps"
| "seqs [r] = r"
| "seqs (r # rs) = Seq r (seqs rs)"

fun alts :: "rx list \<Rightarrow> rx" where
  "alts [] = NotAhead Eps"
| "alts [r] = r"
| "alts (r # rs) = Alt r (alts rs)"

section \<open>Floating point values\<close>

text \<open>
  Of a Python float the program uses its truth value, the order and its text. A float is
  a finite number, an infinity or NaN; rounding to binary64 is not modelled.
\<close>

datatype pyfloat = Finite real | PosInf | NegInf | NaN

fun float_truthy :: "pyfloat \<Rightarrow> bool" where
  "float_truthy (Finite x) = (x \<noteq> 0)"
| "float_truthy _ = True"

fun float_lt :: "pyfloat \<Rightarrow> pyfloat \<Rightarrow> bool" where
  "float_lt NaN _ = False"
| "float_lt _ NaN = False"
| "float_lt (Finite x) (Finite y) = (x < y)"
| "float_lt NegInf NegInf = False"
| "float_lt NegInf _ = True"
| "float_lt _ NegInf = False"
| "float_lt PosInf _ = False"
| "float_lt _ PosInf = True"

fun float_or :: "pyfloat option \<Rightarrow> pyfloat option \<Rightarrow> pyfloat option" where
  \<comment> \<open>\<open>a or b\<close> on optional floats: None and zero are false\<close>
  "float_or None b = b"
| "float_or (Some x) b = (if float_truthy x then Some x else b)"

section \<open>The data model (schemas.py)\<close>

datatype pydate = Date int int int

record PolicyInfo =
  policy_number :: "string option"
  policyholder_name :: "string option"
  effective_date_start :: "pydate option"
  effective_date_end :: "pydate option"

record IncidentInfo =
  date :: "pydate option"
  time :: "string option"
  location_street :: "string option"
  location_city_state_zip :: "string option"
  location_country :: "string option"
  description :: "string option"

record InvolvedParty =
  name :: "string option"
  address :: "string option"
  phone :: "string option"
  email :: "string option"
  relation_to_insured :: "string option"

record AssetDetails =
  asset_type :: "string option"
  asset_id :: "string option"
  make_field :: "string option"
  model :: "string option"
  year :: "int option"
  estimated_damage :: "pyfloat option"
  initial_estimate :: "pyfloat option"

record ExtractedFields =
  policy :: PolicyInfo
  incident :: IncidentInfo
  claimant :: "InvolvedParty option"
  third_parties :: "InvolvedParty list"
  contact_details :: "InvolvedParty option"
  asset :: "AssetDetails option"
  claim_type :: "string option"
  attachments :: "string list"
  initial_estimate :: "pyfloat option"

definition MANDATORY_FIELDS :: "string list" where
  "MANDATORY_FIELDS =
     [''policy_number'', ''policyholder_name'', ''incident_date'', ''incident_location'',
      ''incident_description'', ''claim_type'', ''initial_estimate_or_estimated_damage'']"

section \<open>Configuration (config.py)\<close>

record Settings =
  host :: string
  port :: int
  log_level :: string
  fast_track_damage_threshold :: pyfloat
  openai_api_key :: "string option"

definition default_settings :: Settings where
  "default_settings =
     \<lparr> host = ''0.0.0.0'', port = 8000, log_level = ''INFO'',
       fast_track_damage_threshold = Finite 25000, openai_api_key = None \<rparr>"

section \<open>The routing engine (routing/engine.py)\<close>

definition INVESTIGATION_KEYWORDS :: rx where
  \<comment> \<open>\<open>\b(fraud|inconsistent|staged)\b\<close>, IGNORECASE\<close>
  "INVESTIGATION_KEYWORDS =
     seqs [WordB, Grp 1 (alts [lit_ci ''fraud'', lit_ci ''inconsistent'', lit_ci ''staged'']), WordB]"

definition or_empty :: "string option \<Rightarrow> string" where
  \<comment> \<open>\<open>x or ""\<close>\<close>
  "or_empty x = (case x of None \<Rightarrow> [] | Some s \<Rightarrow> s)"

definition nonblank :: "string option \<Rightarrow> bool" where
  \<comment> \<open>the truth value of \<open>x and x.strip()\<close>\<close>
  "nonblank x = (case x of None \<Rightarrow> False | Some s \<Rightarrow> s \<noteq> [] \<and> strip s \<noteq> [])"

definition check_damage :: "ExtractedFields \<Rightarrow> pyfloat option" where
  \<comment> \<open>\<open>damage\<close> in \<open>get_missing_mandatory_fields\<close>\<close>
  "check_damage extracted =
     (let damage = None;
          damage = (case asset extracted of
                      None \<Rightarrow> damage
                    | Some a \<Rightarrow> float_or (estimated_damage a) (AssetDetails.initial_estimate a));
          damage = (case ExtractedFields.initial_estimate extracted of
                      None \<Rightarrow> damage
                    | Some v \<Rightarrow> Some v)
      in damage)"

definition get_missing_mandatory_fields :: "ExtractedFields \<Rightarrow> string list" where
  "get_missing_mandatory_fields extracted =
     (let missing = [];
          p = policy extracted;
          i = incident extracted;
          missing = (if \<not> nonblank (policy_number p)
                     then missing @ [''policy_number''] else missing);
          missing = (if \<not> nonblank (policyholder_name p)
                     then missing @ [''policyholder_name''] else missing);
          missing = (if date i = None
                     then missing @ [''incident_date''] else missing);
          loc = (let a = strip (or_empty (location_street i))
                 in if a \<noteq> [] then a else strip (or_empty (location_city_state_zip i)));
          missing = (if loc = []
                     then missing @ [''incident_location''] else missing);
          missing = (if \<not> nonblank (description i)
                     then missing @ [''incident_description''] else missing);
          missing = (if \<not> nonblank (claim_type extracted)
                     then missing @ [''claim_type''] else missing);
          damage = check_damage extracted;
          missing = (if damage = None
                     then missing @ [''initial_estimate_or_estimated_damage''] else missing)
      in missing)"

definition route_damage :: "ExtractedFields \<Rightarrow> pyfloat option" where
  \<comment> \<open>\<open>damage\<close> in \<open>compute_route\<close>\<close>
  "route_damage extracted =
     (let damage = None;
          damage = (if asset extracted \<noteq> None
                    then float_or (estimated_damage (the (asset extracted)))
                           (AssetDetails.initial_estimate (the (asset extracted)))
                    else damage);
          damage = (if ExtractedFields.initial_estimate extracted \<noteq> None
                    then ExtractedFields.initial_estimate extracted
                    else damage)
      in damage)"

definition compute_route ::
  "(pyfloat \<Rightarrow> string) \<Rightarrow> Settings \<Rightarrow> ExtractedFields \<Rightarrow> string list \<Rightarrow> pyfloat option
     \<Rightarrow> string \<times> string" where
  \<comment> \<open>\<open>fmt\<close> is the text of a float in an f-string; \<open>settings\<close> is the module's configuration\<close>
  "compute_route fmt settings extracted missing threshold =
     (let threshold = (case threshold of
                         None \<Rightarrow> fast_track_damage_threshold settings
                       | Some t \<Rightarrow> t)
      in
      if missing \<noteq> [] then
        (''Manual review'',
         ''Missing mandatory field(s): '' @ join '', '' missing @ ''. Cannot auto-route.'')
      else
        let desc = strip (or_empty (description (incident extracted))) in
        if re_search INVESTIGATION_KEYWORDS desc \<noteq> None then
          (''Investigation Flag'',
           ''Description contains terms suggesting possible fraud or inconsistency; flagged for investigation.'')
        else if lower (strip (or_empty (claim_type extracted))) = ''injury'' then
          (''Specialist Queue'', ''Claim type is injury; routed to specialist queue.'')
        else
          let damage = route_damage extracted in
          if damage \<noteq> None \<and> float_lt (the damage) threshold then
            (''Fast-track'',
             ''Estimated damage ('' @ fmt (the damage) @ '') is below threshold (''
               @ fmt threshold @ ''); eligible for fast-track.'')
          else
            (''Standard'',
             ''All mandatory fields present; no special flags; above fast-track threshold; routed to standard workflow.''))"


section \<open>Example records\<close>

definition example_complete :: ExtractedFields where
  \<comment> \<open>the record of \<open>_minimal_extracted()\<close> in tests/test_routing.py\<close>
  "example_complete =
     \<lparr> policy = \<lparr> policy_number = Some ''P1'', policyholder_name = Some ''John'',
                   effective_date_start = None, effective_date_end = None \<rparr>,
       incident = \<lparr> date = Some (Date 2024 1 15), time = None,
                     location_street = Some ''123 Main St'', location_city_state_zip = None,
                     location_country = None, description = Some ''Hit'' \<rparr>,
       claimant = Some \<lparr> name = Some ''John'', address = None, phone = None, email = None,
                          relation_to_insured = None \<rparr>,
       third_parties = [],
       contact_details = None,
       asset = Some \<lparr> asset_type = None, asset_id = None, make_field = None, model = None,
                       year = None, estimated_damage = Some (Finite 10000),
                       AssetDetails.initial_estimate = Some (Finite 10000) \<rparr>,
       claim_type = Some ''auto'',
       attachments = [],
       ExtractedFields.initial_estimate = Some (Finite 10000) \<rparr>"

definition example_no_policy_number :: ExtractedFields where
  \<comment> \<open>\<open>_minimal_extracted(policy_number="")\<close>\<close>
  "example_no_policy_number =
     example_complete \<lparr> policy := (policy example_complete) \<lparr> policy_number := Some [] \<rparr> \<rparr>"

definition example_zero_estimate :: ExtractedFields where
  \<comment> \<open>the complete record with \<open>AssetDetails(estimated_damage=0.0, initial_estimate=30000.0)\<close>
      and no top-level \<open>initial_estimate\<close>\<close>
  "example_zero_estimate =
     example_complete \<lparr>
       asset := Some \<lparr> asset_type = None, asset_id = None, make_field = None, model = None,
                       year = None, estimated_damage = Some (Finite 0),
                       AssetDetails.initial_estimate = Some (Finite 30000) \<rparr>,
       ExtractedFields.initial_estimate := None \<rparr>"

definition example_zero_only :: ExtractedFields where
  \<comment> \<open>the complete record with \<open>AssetDetails(estimated_damage=0.0)\<close> and no other estimate\<close>
  "example_zero_only =
     example_complete \<lparr>
       asset := Some \<lparr> asset_type = None, asset_id = None, make_field = None, model = None,
                       year = None, estimated_damage = Some (Finite 0),
                       AssetDetails.initial_estimate = None \<rparr>,
       ExtractedFields.initial_estimate := None \<rparr>"

section \<open>The computed damage\<close>

definition stated_damage :: "ExtractedFields \<Rightarrow> pyfloat option" where
  \<comment> \<open>The damage in the specification's words, over values that are present or absent: the
      asset's \<open>estimated_damage\<close>, else the asset's \<open>initial_estimate\<close> (when there is an
      asset), and the top-level \<open>initial_estimate\<close> overrides whenever it is set.\<close>
  "stated_damage e =
     (case ExtractedFields.initial_estimate e of
        Some v \<Rightarrow> Some v
      | None \<Rightarrow>
          (case asset e of
             None \<Rightarrow> None
           | Some a \<Rightarrow>
               (case estimated_damage a of
                  Some d \<Rightarrow> Some d
                | None \<Rightarrow> AssetDetails.initial_estimate a)))"

definition zero_skipped :: "ExtractedFields \<Rightarrow> bool" where
  \<comment> \<open>the records on which a present \<open>estimated_damage\<close> is passed over: it is zero, the
      asset's \<open>initial_estimate\<close> is another value or absent, and no top-level value overrides\<close>
  "zero_skipped e =
     (ExtractedFields.initial_estimate e = None \<and>
      (case asset e of
         None \<Rightarrow> False
       | Some a \<Rightarrow> estimated_damage a = Some (Finite 0) \<and>
                  AssetDetails.initial_estimate a \<noteq> Some (Finite 0)))"

lemma float_truthy_iff: "float_truthy x \<longleftrightarrow> x \<noteq> Finite 0"
  by (cases x) simp_all

lemma damage_same: "check_damage e = route_damage e"
  by (simp add: check_damage_def route_damage_def split: option.splits)

text \<open>
  The two computations follow the stated precedence on every record but those of
  \<open>zero_skipped\<close>; there they give the asset's \<open>initial_estimate\<close>, where the stated damage
  is the zero that is present.
\<close>

lemma route_damage_stated: "route_damage e = stated_damage e \<longleftrightarrow> \<not> zero_skipped e"
  by (auto simp: route_damage_def stated_damage_def zero_skipped_def float_truthy_iff
      split: option.splits)

lemma route_damage_zero_skipped:
  assumes "zero_skipped e"
  shows "route_damage e = AssetDetails.initial_estimate (the (asset e))"
    and "stated_damage e = Some (Finite 0)"
  using assms
  by (auto simp: route_damage_def stated_damage_def zero_skipped_def float_truthy_iff
      split: option.splits)

lemma example_zero_estimate_skipped: "zero_skipped example_zero_estimate"
  by (simp add: zero_skipped_def example_zero_estimate_def example_complete_def)

lemma example_zero_only_skipped: "zero_skipped example_zero_only"
  by (simp add: zero_skipped_def example_zero_only_def example_complete_def)

text \<open>
  Claim C3. The damage computed inside \<open>get_missing_mandatory_fields\<close> and the one computed
  inside \<open>compute_route\<close> are equal on every record (\<open>damage_same\<close>), but they are not the
  asset's \<open>estimated_damage\<close> whenever it is present: on a record whose asset has an
  \<open>estimated_damage\<close> of 0.0 and an \<open>initial_estimate\<close> of 30000.0, both are 30000.0, and
  on a record whose asset has an \<open>estimated_damage\<close> of 0.0 and no other estimate, both are
  absent. The stated precedence gives 0.0 on both records.
\<close>

theorem damage_skips_zero_estimate:
  "estimated_damage (the (asset example_zero_estimate)) = Some (Finite 0) \<and>
   check_damage example_zero_estimate = Some (Finite 30000) \<and>
   route_damage example_zero_estimate = Some (Finite 30000) \<and>
   stated_damage example_zero_estimate = Some (Finite 0) \<and>
   estimated_damage (the (asset example_zero_only)) = Some (Finite 0) \<and>
   check_damage example_zero_only = None \<and>
   route_damage example_zero_only = None \<and>
   stated_damage example_zero_only = Some (Finite 0)"
  by (simp add: check_damage_def route_damage_def stated_damage_def
      example_zero_estimate_def example_zero_only_def example_complete_def)

text \<open>
  On the records of the routing tests the stated damage is the computed one: with an asset
  estimate and a different top-level value, the top-level value; with no top-level value,
  the asset's \<open>estimated_damage\<close>; with neither, the asset's \<open>initial_estimate\<close>.
\<close>

lemma damage_examples:
  "route_damage (example_complete \<lparr> ExtractedFields.initial_estimate := Some (Finite 50) \<rparr>)
     = Some (Finite 50)"
  "route_damage (example_complete \<lparr> ExtractedFields.initial_estimate := None \<rparr>)
     = Some (Finite 10000)"
  "route_damage (example_complete \<lparr>
       asset := Some ((the (asset example_complete)) \<lparr> estimated_damage := None,
                  AssetDetails.initial_estimate := Some (Finite 7000) \<rparr>),
       ExtractedFields.initial_estimate := None \<rparr>) = Some (Finite 7000)"
  "route_damage (example_complete \<lparr> asset := None, ExtractedFields.initial_estimate := None \<rparr>)
     = None"
  by (simp_all add: route_damage_def example_complete_def)

section \<open>The mandatory field checker\<close>

lemma strip_Nil_iff: "strip s = [] \<longleftrightarrow> list_all is_space s"
proof -
  have "dropWhile is_space s = [] \<longleftrightarrow> list_all is_space s"
    by (simp add: dropWhile_eq_Nil_conv list_all_iff)
  moreover have "strip s \<noteq> []" if a: "dropWhile is_space s \<noteq> []"
  proof -
    from a have "\<not> is_space (hd (dropWhile is_space s))" by (rule hd_dropWhile)
    moreover have "hd (dropWhile is_space s) \<in> set (rev (dropWhile is_space s))"
      using a by simp
    ultimately have "dropWhile is_space (rev (dropWhile is_space s)) \<noteq> []"
      by (metis dropWhile_eq_Nil_conv)
    then show ?thesis by (simp add: strip_def)
  qed
  moreover have "strip s = []" if a: "dropWhile is_space s = []"
    unfolding strip_def a by simp
  ultimately show ?thesis by blast
qed

definition absent_or_blank :: "string option \<Rightarrow> bool" where
  \<comment> \<open>a text field that is absent, empty or all white space\<close>
  "absent_or_blank x = (case x of None \<Rightarrow> True | Some s \<Rightarrow> list_all is_space s)"

definition field_absent :: "ExtractedFields \<Rightarrow> string \<Rightarrow> bool" where
  \<comment> \<open>what it means for each mandatory field to be missing, in the specification's words;
      the seventh is missing when the stated damage is absent\<close>
  "field_absent e f =
     (if f = ''policy_number'' then absent_or_blank (policy_number (policy e))
      else if f = ''policyholder_name'' then absent_or_blank (policyholder_name (policy e))
      else if f = ''incident_date'' then date (incident e) = None
      else if f = ''incident_location'' then
        absent_or_blank (location_street (incident e)) \<and>
        absent_or_blank (location_city_state_zip (incident e))
      else if f = ''incident_description'' then absent_or_blank (description (incident e))
      else if f = ''claim_type'' then absent_or_blank (claim_type e)
      else if f = ''initial_estimate_or_estimated_damage'' then stated_damage e = None
      else False)"

definition zero_only :: "ExtractedFields \<Rightarrow> bool" where
  \<comment> \<open>the records whose only estimate is an asset's \<open>estimated_damage\<close> of zero\<close>
  "zero_only e =
     (ExtractedFields.initial_estimate e = None \<and>
      (case asset e of
         None \<Rightarrow> False
       | Some a \<Rightarrow> estimated_damage a = Some (Finite 0) \<and>
                  AssetDetails.initial_estimate a = None))"

lemma nonblank_iff: "nonblank x \<longleftrightarrow> \<not> absent_or_blank x"
  by (auto simp: nonblank_def absent_or_blank_def strip_Nil_iff split: option.splits)

lemma loc_blank_iff:
  "(if strip (or_empty x) \<noteq> [] then strip (or_empty x) else strip (or_empty y)) = [] \<longleftrightarrow>
     absent_or_blank x \<and> absent_or_blank y"
  by (auto simp: or_empty_def absent_or_blank_def strip_Nil_iff split: option.splits)

lemma append_if: "(if c then xs @ [a] else xs) = xs @ (if c then [a] else [])"
  by simp

lemma field_absent_simps:
  "field_absent e ''policy_number'' = absent_or_blank (policy_number (policy e))"
  "field_absent e ''policyholder_name'' = absent_or_blank (policyholder_name (policy e))"
  "field_absent e ''incident_date'' = (date (incident e) = None)"
  "field_absent e ''incident_location'' =
     (absent_or_blank (location_street (incident e)) \<and>
      absent_or_blank (location_city_state_zip (incident e)))"
  "field_absent e ''incident_description'' = absent_or_blank (description (incident e))"
  "field_absent e ''claim_type'' = absent_or_blank (claim_type e)"
  "field_absent e ''initial_estimate_or_estimated_damage'' = (stated_damage e = None)"
  by (simp_all add: field_absent_def)

lemma if_singleton_Nil: "((if c then [a] else []) = []) = (\<not> c)"
  by simp

lemma filter7:
  "filter P [a, b, c, d, e, f, g] =
     (if P a then [a] else []) @ (if P b then [b] else []) @ (if P c then [c] else []) @
     (if P d then [d] else []) @ (if P e then [e] else []) @ (if P f then [f] else []) @
     (if P g then [g] else [])"
  by simp

lemma check_damage_None:
  "check_damage e = None \<longleftrightarrow> stated_damage e = None \<or> zero_only e"
  by (auto simp: check_damage_def stated_damage_def zero_only_def float_truthy_iff
      split: option.splits)

lemma zero_only_stated: "zero_only e \<Longrightarrow> stated_damage e \<noteq> None"
  by (auto simp: stated_damage_def zero_only_def split: option.splits)

lemma missing_as_filter:
  "get_missing_mandatory_fields e =
     filter (field_absent e) MANDATORY_FIELDS @
     (if zero_only e then [''initial_estimate_or_estimated_damage''] else [])"
proof (cases "zero_only e")
  case True
  then have c: "check_damage e = None"
    using check_damage_None by blast
  from True obtain y where s: "stated_damage e = Some y"
    using zero_only_stated by blast
  show ?thesis
    unfolding get_missing_mandatory_fields_def MANDATORY_FIELDS_def filter7 field_absent_simps
      Let_def nonblank_iff loc_blank_iff append_if c s
    using True by (simp split del: if_split)
next
  case False
  then have "(check_damage e = None) = (stated_damage e = None)"
    using check_damage_None by blast
  then show ?thesis
    unfolding get_missing_mandatory_fields_def MANDATORY_FIELDS_def filter7 field_absent_simps
      Let_def nonblank_iff loc_blank_iff append_if
    using False by (simp split del: if_split)
qed

text \<open>
  Apart from the records of \<open>zero_only\<close> the checker returns exactly the mandatory fields
  that are absent or blank, in the order of \<open>MANDATORY_FIELDS\<close>, and the empty list exactly
  when all seven are present.
\<close>

lemma missing_is_filter:
  "\<not> zero_only e \<Longrightarrow> get_missing_mandatory_fields e = filter (field_absent e) MANDATORY_FIELDS"
  by (simp add: missing_as_filter)

lemma missing_Nil_iff:
  assumes "\<not> zero_only e"
  shows "get_missing_mandatory_fields e = [] \<longleftrightarrow>
      \<not> absent_or_blank (policy_number (policy e)) \<and>
      \<not> absent_or_blank (policyholder_name (policy e)) \<and>
      date (incident e) \<noteq> None \<and>
      \<not> (absent_or_blank (location_street (incident e)) \<and>
         absent_or_blank (location_city_state_zip (incident e))) \<and>
      \<not> absent_or_blank (description (incident e)) \<and>
      \<not> absent_or_blank (claim_type e) \<and>
      stated_damage e \<noteq> None"
  unfolding missing_is_filter[OF assms] MANDATORY_FIELDS_def filter7 append_is_Nil_conv
    if_singleton_Nil field_absent_simps
  by (rule refl)

lemma missing_examples:
  "get_missing_mandatory_fields example_complete = []"
  "get_missing_mandatory_fields example_no_policy_number = [''policy_number'']"
  "get_missing_mandatory_fields example_zero_estimate = []"
proof -
  have z: "\<not> zero_only example_complete" "\<not> zero_only example_no_policy_number"
    "\<not> zero_only example_zero_estimate"
    by (simp_all add: zero_only_def example_complete_def example_no_policy_number_def
        example_zero_estimate_def)
  have "filter (field_absent example_complete) MANDATORY_FIELDS = []"
    "filter (field_absent example_no_policy_number) MANDATORY_FIELDS = [''policy_number'']"
    "filter (field_absent example_zero_estimate) MANDATORY_FIELDS = []"
    by code_simp+
  then show "get_missing_mandatory_fields example_complete = []"
    "get_missing_mandatory_fields example_no_policy_number = [''policy_number'']"
    "get_missing_mandatory_fields example_zero_estimate = []"
    using z by (simp_all add: missing_is_filter)
qed

text \<open>
  Claim C2. On the complete record whose asset has an \<open>estimated_damage\<close> of 0.0 and which
  holds no other estimate, every mandatory field is present, the seventh by the estimated
  damage of 0.0, and \<open>get_missing_mandatory_fields\<close> returns the seventh name: the list is
  neither the list of the absent fields nor empty.
\<close>

theorem missing_fields_zero_estimate:
  "estimated_damage (the (asset example_zero_only)) = Some (Finite 0) \<and>
   filter (field_absent example_zero_only) MANDATORY_FIELDS = [] \<and>
   get_missing_mandatory_fields example_zero_only = [''initial_estimate_or_estimated_damage'']"
proof -
  have 1: "estimated_damage (the (asset example_zero_only)) = Some (Finite 0)"
    by (simp add: example_zero_only_def example_complete_def)
  have 2: "filter (field_absent example_zero_only) MANDATORY_FIELDS = []"
    by code_simp
  have "zero_only example_zero_only"
    by (simp add: zero_only_def example_zero_only_def example_complete_def)
  then have 3: "get_missing_mandatory_fields example_zero_only
      = [''initial_estimate_or_estimated_damage'']"
    using 2 by (simp add: missing_as_filter)
  from 1 2 3 show ?thesis by simp
qed


section \<open>Facts about characters and the matcher\<close>

lemma of_char_lt: "(of_char c :: nat) < 256"
  by (metis mod_less_divisor of_char_mod_256 zero_less_numeral)

lemma is_word_lower_char: "is_word (lower_char c) = is_word c"
  using of_char_lt[of c]
  by (auto simp: lower_char_def is_word_def is_upper_def is_lower_def is_digit_def Let_def)

lemma is_lower_is_word: "is_lower c \<Longrightarrow> is_word c"
  by (simp add: is_word_def)

lemma ci_ch_lower: "is_lower c \<Longrightarrow> ci (ch c) x = (lower_char x = c)"
  using of_char_lt[of x] of_char_lt[of c]
  by (auto simp: ci_def ch_def lower_char_def upper_char_def is_upper_def is_lower_def Let_def)

lemma lit_ci_Nil: "lit_ci [] = Eps"
  by (simp add: lit_ci_def)

lemma lit_ci_Cons: "lit_ci (c # w) = Seq (Cls (ci (ch c))) (lit_ci w)"
  by (simp add: lit_ci_def)

definition after :: "char option \<Rightarrow> string \<Rightarrow> char option" where
  \<comment> \<open>the character before the position reached by reading \<open>u\<close>\<close>
  "after pc u = (if u = [] then pc else Some (last u))"

lemma rx_match_lit_ci:
  "\<forall>c\<in>set w. is_lower c \<Longrightarrow>
   rx_match (lit_ci w) (pc, s, g) =
     (if length w \<le> length s \<and> lower (take (length w) s) = w
      then [(after pc (take (length w) s), drop (length w) s, g)] else [])"
proof (induction w arbitrary: pc s)
  case Nil
  then show ?case by (simp add: lit_ci_Nil after_def lower_def)
next
  case (Cons c w)
  show ?case
  proof (cases s)
    case Nil
    then show ?thesis by (simp add: lit_ci_Cons)
  next
    case (Cons x xs)
    have c: "is_lower c" and w: "\<forall>c\<in>set w. is_lower c" using Cons.prems by auto
    show ?thesis
      using Cons.IH[OF w, of "Some x" xs]
      by (auto simp: lit_ci_Cons Cons ci_ch_lower[OF c] lower_def after_def)
  qed
qed

lemma ci_ch: "ci (ch c) x = (lower_char x = lower_char c)"
  using of_char_lt[of x] of_char_lt[of c]
  by (auto simp: ci_def ch_def lower_char_def upper_char_def is_upper_def is_lower_def Let_def)

lemma rx_match_lit_ci_any:
  "rx_match (lit_ci w) (pc, s, g) =
     (if length w \<le> length s \<and> lower (take (length w) s) = lower w
      then [(after pc (take (length w) s), drop (length w) s, g)] else [])"
proof (induction w arbitrary: pc s)
  case Nil
  then show ?case by (simp add: lit_ci_Nil after_def lower_def)
next
  case (Cons c w)
  show ?case
  proof (cases s)
    case Nil
    then show ?thesis by (simp add: lit_ci_Cons)
  next
    case (Cons x xs)
    show ?thesis
      using Cons.IH[of "Some x" xs]
      by (auto simp: lit_ci_Cons Cons ci_ch lower_def after_def)
  qed
qed

lemma lower_char_ascii:
  "lower_char (CHR 0x00) = CHR 0x00"
  "lower_char (CHR 0x01) = CHR 0x01"
  "lower_char (CHR 0x02) = CHR 0x02"
  "lower_char (CHR 0x03) = CHR 0x03"
  "lower_char (CHR 0x04) = CHR 0x04"
  "lower_char (CHR 0x05) = CHR 0x05"
  "lower_char (CHR 0x06) = CHR 0x06"
  "lower_char (CHR 0x07) = CHR 0x07"
  "lower_char (CHR 0x08) = CHR 0x08"
  "lower_char (CHR 0x09) = CHR 0x09"
  "lower_char (CHR 0x0A) = CHR 0x0A"
  "lower_char (CHR 0x0B) = CHR 0x0B"
  "lower_char (CHR 0x0C) = CHR 0x0C"
  "lower_char (CHR 0x0D) = CHR 0x0D"
  "lower_char (CHR 0x0E) = CHR 0x0E"
  "lower_char (CHR 0x0F) = CHR 0x0F"
  "lower_char (CHR 0x10) = CHR 0x10"
  "lower_char (CHR 0x11) = CHR 0x11"
  "lower_char (CHR 0x12) = CHR 0x12"
  "lower_char (CHR 0x13) = CHR 0x13"
  "lower_char (CHR 0x14) = CHR 0x14"
  "lower_char (CHR 0x15) = CHR 0x15"
  "lower_char (CHR 0x16) = CHR 0x16"
  "lower_char (CHR 0x17) = CHR 0x17"
  "lower_char (CHR 0x18) = CHR 0x18"
  "lower_char (CHR 0x19) = CHR 0x19"
  "lower_char (CHR 0x1A) = CHR 0x1A"
  "lower_char (CHR 0x1B) = CHR 0x1B"
  "lower_char (CHR 0x1C) = CHR 0x1C"
  "lower_char (CHR 0x1D) = CHR 0x1D"
  "lower_char (CHR 0x1E) = CHR 0x1E"
  "lower_char (CHR 0x1F) = CHR 0x1F"
  "lower_char (CHR 0x20) = CHR 0x20"
  "lower_char (CHR 0x21) = CHR 0x21"
  "lower_char (CHR 0x22) = CHR 0x22"
  "lower_char (CHR 0x23) = CHR 0x23"
  "lower_char (CHR 0x24) = CHR 0x24"
  "lower_char (CHR 0x25) = CHR 0x25"
  "lower_char (CHR 0x26) = CHR 0x26"
  "lower_char (CHR 0x27) = CHR 0x27"
  "lower_char (CHR 0x28) = CHR 0x28"
  "lower_char (CHR 0x29) = CHR 0x29"
  "lower_char (CHR 0x2A) = CHR 0x2A"
  "lower_char (CHR 0x2B) = CHR 0x2B"
  "lower_char (CHR 0x2C) = CHR 0x2C"
  "lower_char (CHR 0x2D) = CHR 0x2D"
  "lower_char (CHR 0x2E) = CHR 0x2E"
  "lower_char (CHR 0x2F) = CHR 0x2F"
  "lower_char (CHR 0x30) = CHR 0x30"
  "lower_char (CHR 0x31) = CHR 0x31"
  "lower_char (CHR 0x32) = CHR 0x32"
  "lower_char (CHR 0x33) = CHR 0x33"
  "lower_char (CHR 0x34) = CHR 0x34"
  "lower_char (CHR 0x35) = CHR 0x35"
  "lower_char (CHR 0x36) = CHR 0x36"
  "lower_char (CHR 0x37) = CHR 0x37"
  "lower_char (CHR 0x38) = CHR 0x38"
  "lower_char (CHR 0x39) = CHR 0x39"
  "lower_char (CHR 0x3A) = CHR 0x3A"
  "lower_char (CHR 0x3B) = CHR 0x3B"
  "lower_char (CHR 0x3C) = CHR 0x3C"
  "lower_char (CHR 0x3D) = CHR 0x3D"
  "lower_char (CHR 0x3E) = CHR 0x3E"
  "lower_char (CHR 0x3F) = CHR 0x3F"
  "lower_char (CHR 0x40) = CHR 0x40"
  "lower_char (CHR 0x41) = CHR 0x61"
  "lower_char (CHR 0x42) = CHR 0x62"
  "lower_char (CHR 0x43) = CHR 0x63"
  "lower_char (CHR 0x44) = CHR 0x64"
  "lower_char (CHR 0x45) = CHR 0x65"
  "lower_char (CHR 0x46) = CHR 0x66"
  "lower_char (CHR 0x47) = CHR 0x67"
  "lower_char (CHR 0x48) = CHR 0x68"
  "lower_char (CHR 0x49) = CHR 0x69"
  "lower_char (CHR 0x4A) = CHR 0x6A"
  "lower_char (CHR 0x4B) = CHR 0x6B"
  "lower_char (CHR 0x4C) = CHR 0x6C"
  "lower_char (CHR 0x4D) = CHR 0x6D"
  "lower_char (CHR 0x4E) = CHR 0x6E"
  "lower_char (CHR 0x4F) = CHR 0x6F"
  "lower_char (CHR 0x50) = CHR 0x70"
  "lower_char (CHR 0x51) = CHR 0x71"
  "lower_char (CHR 0x52) = CHR 0x72"
  "lower_char (CHR 0x53) = CHR 0x73"
  "lower_char (CHR 0x54) = CHR 0x74"
  "lower_char (CHR 0x55) = CHR 0x75"
  "lower_char (CHR 0x56) = CHR 0x76"
  "lower_char (CHR 0x57) = CHR 0x77"
  "lower_char (CHR 0x58) = CHR 0x78"
  "lower_char (CHR 0x59) = CHR 0x79"
  "lower_char (CHR 0x5A) = CHR 0x7A"
  "lower_char (CHR 0x5B) = CHR 0x5B"
  "lower_char (CHR 0x5C) = CHR 0x5C"
  "lower_char (CHR 0x5D) = CHR 0x5D"
  "lower_char (CHR 0x5E) = CHR 0x5E"
  "lower_char (CHR 0x5F) = CHR 0x5F"
  "lower_char (CHR 0x60) = CHR 0x60"
  "lower_char (CHR 0x61) = CHR 0x61"
  "lower_char (CHR 0x62) = CHR 0x62"
  "lower_char (CHR 0x63) = CHR 0x63"
  "lower_char (CHR 0x64) = CHR 0x64"
  "lower_char (CHR 0x65) = CHR 0x65"
  "lower_char (CHR 0x66) = CHR 0x66"
  "lower_char (CHR 0x67) = CHR 0x67"
  "lower_char (CHR 0x68) = CHR 0x68"
  "lower_char (CHR 0x69) = CHR 0x69"
  "lower_char (CHR 0x6A) = CHR 0x6A"
  "lower_char (CHR 0x6B) = CHR 0x6B"
  "lower_char (CHR 0x6C) = CHR 0x6C"
  "lower_char (CHR 0x6D) = CHR 0x6D"
  "lower_char (CHR 0x6E) = CHR 0x6E"
  "lower_char (CHR 0x6F) = CHR 0x6F"
  "lower_char (CHR 0x70) = CHR 0x70"
  "lower_char (CHR 0x71) = CHR 0x71"
  "lower_char (CHR 0x72) = CHR 0x72"
  "lower_char (CHR 0x73) = CHR 0x73"
  "lower_char (CHR 0x74) = CHR 0x74"
  "lower_char (CHR 0x75) = CHR 0x75"
  "lower_char (CHR 0x76) = CHR 0x76"
  "lower_char (CHR 0x77) = CHR 0x77"
  "lower_char (CHR 0x78) = CHR 0x78"
  "lower_char (CHR 0x79) = CHR 0x79"
  "lower_char (CHR 0x7A) = CHR 0x7A"
  "lower_char (CHR 0x7B) = CHR 0x7B"
  "lower_char (CHR 0x7C) = CHR 0x7C"
  "lower_char (CHR 0x7D) = CHR 0x7D"
  "lower_char (CHR 0x7E) = CHR 0x7E"
  "lower_char (CHR 0x7F) = CHR 0x7F"
  by (simp_all add: lower_char_def is_upper_def char_of_eq_iff)

lemma upper_char_ascii:
  "upper_char (CHR 0x00) = CHR 0x00"
  "upper_char (CHR 0x01) = CHR 0x01"
  "upper_char (CHR 0x02) = CHR 0x02"
  "upper_char (CHR 0x03) = CHR 0x03"
  "upper_char (CHR 0x04) = CHR 0x04"
  "upper_char (CHR 0x05) = CHR 0x05"
  "upper_char (CHR 0x06) = CHR 0x06"
  "upper_char (CHR 0x07) = CHR 0x07"
  "upper_char (CHR 0x08) = CHR 0x08"
  "upper_char (CHR 0x09) = CHR 0x09"
  "upper_char (CHR 0x0A) = CHR 0x0A"
  "upper_char (CHR 0x0B) = CHR 0x0B"
  "upper_char (CHR 0x0C) = CHR 0x0C"
  "upper_char (CHR 0x0D) = CHR 0x0D"
  "upper_char (CHR 0x0E) = CHR 0x0E"
  "upper_char (CHR 0x0F) = CHR 0x0F"
  "upper_char (CHR 0x10) = CHR 0x10"
  "upper_char (CHR 0x11) = CHR 0x11"
  "upper_char (CHR 0x12) = CHR 0x12"
  "upper_char (CHR 0x13) = CHR 0x13"
  "upper_char (CHR 0x14) = CHR 0x14"
  "upper_char (CHR 0x15) = CHR 0x15"
  "upper_char (CHR 0x16) = CHR 0x16"
  "upper_char (CHR 0x17) = CHR 0x17"
  "upper_char (CHR 0x18) = CHR 0x18"
  "upper_char (CHR 0x19) = CHR 0x19"
  "upper_char (CHR 0x1A) = CHR 0x1A"
  "upper_char (CHR 0x1B) = CHR 0x1B"
  "upper_char (CHR 0x1C) = CHR 0x1C"
  "upper_char (CHR 0x1D) = CHR 0x1D"
  "upper_char (CHR 0x1E) = CHR 0x1E"
  "upper_char (CHR 0x1F) = CHR 0x1F"
  "upper_char (CHR 0x20) = CHR 0x20"
  "upper_char (CHR 0x21) = CHR 0x21"
  "upper_char (CHR 0x22) = CHR 0x22"
  "upper_char (CHR 0x23) = CHR 0x23"
  "upper_char (CHR 0x24) = CHR 0x24"
  "upper_char (CHR 0x25) = CHR 0x25"
  "upper_char (CHR 0x26) = CHR 0x26"
  "upper_char (CHR 0x27) = CHR 0x27"
  "upper_char (CHR 0x28) = CHR 0x28"
  "upper_char (CHR 0x29) = CHR 0x29"
  "upper_char (CHR 0x2A) = CHR 0x2A"
  "upper_char (CHR 0x2B) = CHR 0x2B"
  "upper_char (CHR 0x2C) = CHR 0x2C"
  "upper_char (CHR 0x2D) = CHR 0x2D"
  "upper_char (CHR 0x2E) = CHR 0x2E"
  "upper_char (CHR 0x2F) = CHR 0x2F"
  "upper_char (CHR 0x30) = CHR 0x30"
  "upper_char (CHR 0x31) = CHR 0x31"
  "upper_char (CHR 0x32) = CHR 0x32"
  "upper_char (CHR 0x33) = CHR 0x33"
  "upper_char (CHR 0x34) = CHR 0x34"
  "upper_char (CHR 0x35) = CHR 0x35"
  "upper_char (CHR 0x36) = CHR 0x36"
  "upper_char (CHR 0x37) = CHR 0x37"
  "upper_char (CHR 0x38) = CHR 0x38"
  "upper_char (CHR 0x39) = CHR 0x39"
  "upper_char (CHR 0x3A) = CHR 0x3A"
  "upper_char (CHR 0x3B) = CHR 0x3B"
  "upper_char (CHR 0x3C) = CHR 0x3C"
  "upper_char (CHR 0x3D) = CHR 0x3D"
  "upper_char (CHR 0x3E) = CHR 0x3E"
  "upper_char (CHR 0x3F) = CHR 0x3F"
  "upper_char (CHR 0x40) = CHR 0x40"
  "upper_char (CHR 0x41) = CHR 0x41"
  "upper_char (CHR 0x42) = CHR 0x42"
  "upper_char (CHR 0x43) = CHR 0x43"
  "upper_char (CHR 0x44) = CHR 0x44"
  "upper_char (CHR 0x45) = CHR 0x45"
  "upper_char (CHR 0x46) = CHR 0x46"
  "upper_char (CHR 0x47) = CHR 0x47"
  "upper_char (CHR 0x48) = CHR 0x48"
  "upper_char (CHR 0x49) = CHR 0x49"
  "upper_char (CHR 0x4A) = CHR 0x4A"
  "upper_char (CHR 0x4B) = CHR 0x4B"
  "upper_char (CHR 0x4C) = CHR 0x4C"
  "upper_char (CHR 0x4D) = CHR 0x4D"
  "upper_char (CHR 0x4E) = CHR 0x4E"
  "upper_char (CHR 0x4F) = CHR 0x4F"
  "upper_char (CHR 0x50) = CHR 0x50"
  "upper_char (CHR 0x51) = CHR 0x51"
  "upper_char (CHR 0x52) = CHR 0x52"
  "upper_char (CHR 0x53) = CHR 0x53"
  "upper_char (CHR 0x54) = CHR 0x54"
  "upper_char (CHR 0x55) = CHR 0x55"
  "upper_char (CHR 0x56) = CHR 0x56"
  "upper_char (CHR 0x57) = CHR 0x57"
  "upper_char (CHR 0x58) = CHR 0x58"
  "upper_char (CHR 0x59) = CHR 0x59"
  "upper_char (CHR 0x5A) = CHR 0x5A"
  "upper_char (CHR 0x5B) = CHR 0x5B"
  "upper_char (CHR 0x5C) = CHR 0x5C"
  "upper_char (CHR 0x5D) = CHR 0x5D"
  "upper_char (CHR 0x5E) = CHR 0x5E"
  "upper_char (CHR 0x5F) = CHR 0x5F"
  "upper_char (CHR 0x60) = CHR 0x60"
  "upper_char (CHR 0x61) = CHR 0x41"
  "upper_char (CHR 0x62) = CHR 0x42"
  "upper_char (CHR 0x63) = CHR 0x43"
  "upper_char (CHR 0x64) = CHR 0x44"
  "upper_char (CHR 0x65) = CHR 0x45"
  "upper_char (CHR 0x66) = CHR 0x46"
  "upper_char (CHR 0x67) = CHR 0x47"
  "upper_char (CHR 0x68) = CHR 0x48"
  "upper_char (CHR 0x69) = CHR 0x49"
  "upper_char (CHR 0x6A) = CHR 0x4A"
  "upper_char (CHR 0x6B) = CHR 0x4B"
  "upper_char (CHR 0x6C) = CHR 0x4C"
  "upper_char (CHR 0x6D) = CHR 0x4D"
  "upper_char (CHR 0x6E) = CHR 0x4E"
  "upper_char (CHR 0x6F) = CHR 0x4F"
  "upper_char (CHR 0x70) = CHR 0x50"
  "upper_char (CHR 0x71) = CHR 0x51"
  "upper_char (CHR 0x72) = CHR 0x52"
  "upper_char (CHR 0x73) = CHR 0x53"
  "upper_char (CHR 0x74) = CHR 0x54"
  "upper_char (CHR 0x75) = CHR 0x55"
  "upper_char (CHR 0x76) = CHR 0x56"
  "upper_char (CHR 0x77) = CHR 0x57"
  "upper_char (CHR 0x78) = CHR 0x58"
  "upper_char (CHR 0x79) = CHR 0x59"
  "upper_char (CHR 0x7A) = CHR 0x5A"
  "upper_char (CHR 0x7B) = CHR 0x7B"
  "upper_char (CHR 0x7C) = CHR 0x7C"
  "upper_char (CHR 0x7D) = CHR 0x7D"
  "upper_char (CHR 0x7E) = CHR 0x7E"
  "upper_char (CHR 0x7F) = CHR 0x7F"
  by (simp_all add: upper_char_def is_lower_def char_of_eq_iff)

lemma lower_char_other: "\<not> is_upper c \<Longrightarrow> lower_char c = c"
  by (simp add: lower_char_def)

lemma upper_char_other: "\<not> is_lower c \<Longrightarrow> upper_char c = c"
  by (simp add: upper_char_def)

lemmas char_eval = lower_char_ascii upper_char_ascii
  is_upper_def is_lower_def is_digit_def is_space_def is_word_def Let_def lower_def upper_def

lemma search_from_iff:
  "search_from r pc s \<noteq> None \<longleftrightarrow>
     (\<exists>pre post. s = pre @ post \<and> rx_match r (after pc pre, post, []) \<noteq> [])"
proof (induction s arbitrary: pc)
  case Nil
  then show ?case by (auto simp: after_def split: list.splits)
next
  case (Cons c cs)
  show ?case
  proof (cases "rx_match r (pc, c # cs, [])")
    case Nil
    have "(\<exists>pre post. c # cs = pre @ post \<and> rx_match r (after pc pre, post, []) \<noteq> []) \<longleftrightarrow>
          (\<exists>pre post. cs = pre @ post \<and> rx_match r (after (Some c) pre, post, []) \<noteq> [])"
      (is "?L \<longleftrightarrow> ?R")
    proof
      assume ?L
      then obtain pre post where p: "c # cs = pre @ post" "rx_match r (after pc pre, post, []) \<noteq> []"
        by blast
      show ?R
      proof (cases pre)
        case Nil
        with p Nil \<open>rx_match r (pc, c # cs, []) = []\<close> show ?thesis by (simp add: after_def)
      next
        case (Cons a pre')
        with p have "cs = pre' @ post" "after pc pre = after (Some c) pre'"
          by (auto simp: after_def)
        with p show ?thesis by metis
      qed
    next
      assume ?R
      then obtain pre post where p: "cs = pre @ post" "rx_match r (after (Some c) pre, post, []) \<noteq> []"
        by blast
      then have "c # cs = (c # pre) @ post" "after pc (c # pre) = after (Some c) pre"
        by (auto simp: after_def)
      with p show ?L by metis
    qed
    with Nil Cons.IH[of "Some c"] show ?thesis by simp
  next
    case (Cons st sts)
    then have "rx_match r (after pc [], c # cs, []) \<noteq> []" by (simp add: after_def)
    then have "\<exists>pre post. c # cs = pre @ post \<and> rx_match r (after pc pre, post, []) \<noteq> []"
      by (metis append_Nil)
    with Cons show ?thesis by simp
  qed
qed

section \<open>The routing cascade\<close>

definition whole_word_ci :: "string \<Rightarrow> string \<Rightarrow> bool" where
  \<comment> \<open>\<open>w\<close> occurs in \<open>s\<close> in some letter case, with no word character on either side\<close>
  "whole_word_ci w s =
     (\<exists>pre u post. s = pre @ u @ post \<and> lower u = lower w \<and>
        (pre = [] \<or> \<not> is_word (last pre)) \<and> (post = [] \<or> \<not> is_word (hd post)))"

lemma wb_before:
  "post \<noteq> [] \<Longrightarrow> is_word (hd post) \<Longrightarrow>
   word_boundary (after None pre) post \<longleftrightarrow> (pre = [] \<or> \<not> is_word (last pre))"
  by (cases post) (auto simp: after_def)

lemma wb_after:
  "u \<noteq> [] \<Longrightarrow> is_word (last u) \<Longrightarrow>
   word_boundary (after pc u) post \<longleftrightarrow> (post = [] \<or> \<not> is_word (hd post))"
  by (cases post) (auto simp: after_def)

lemma lower_word_chars:
  assumes "lower u = w" "\<forall>c\<in>set w. is_lower c" "c \<in> set u"
  shows "is_word c"
proof -
  have "lower_char c \<in> set w" using assms(1,3) by (auto simp: lower_def)
  then have "is_word (lower_char c)" using assms(2) is_lower_is_word by blast
  then show ?thesis by (simp add: is_word_lower_char)
qed

lemma lower_lower: "\<forall>c\<in>set w. is_lower c \<Longrightarrow> lower w = w"
  by (induction w) (auto simp: lower_def lower_char_def is_upper_def is_lower_def Let_def)

definition kw_at :: "string \<Rightarrow> char option \<Rightarrow> string \<Rightarrow> bool" where
  "kw_at w pc s =
     (length w \<le> length s \<and> lower (take (length w) s) = w \<and>
      word_boundary (after pc (take (length w) s)) (drop (length w) s))"

lemma keywords_lower:
  "\<forall>c\<in>set ''fraud''. is_lower c"
  "\<forall>c\<in>set ''inconsistent''. is_lower c"
  "\<forall>c\<in>set ''staged''. is_lower c"
  by (simp_all add: is_lower_def)

lemma concat_map_if: "concat (map f (if c then [x] else [])) = (if c then f x else [])"
  by simp

lemma keywords_match:
  "rx_match INVESTIGATION_KEYWORDS (pc, s, []) \<noteq> [] \<longleftrightarrow>
     word_boundary pc s \<and>
     (kw_at ''fraud'' pc s \<or> kw_at ''inconsistent'' pc s \<or> kw_at ''staged'' pc s)"
  unfolding INVESTIGATION_KEYWORDS_def kw_at_def
  by (simp add: rx_match_lit_ci keywords_lower split del: if_split)
     (auto split: if_splits)


lemma kw_at_whole_word:
  assumes w: "w \<noteq> []" "\<forall>c\<in>set w. is_lower c"
  shows "(\<exists>pre post. s = pre @ post \<and> word_boundary (after None pre) post \<and>
            kw_at w (after None pre) post) \<longleftrightarrow> whole_word_ci w s"
    (is "?L \<longleftrightarrow> ?R")
proof
  assume ?L
  then obtain pre post where p: "s = pre @ post" "word_boundary (after None pre) post"
    "length w \<le> length post" "lower (take (length w) post) = w"
    "word_boundary (after (after None pre) (take (length w) post)) (drop (length w) post)"
    by (auto simp: kw_at_def)
  define u where "u = take (length w) post"
  define post' where "post' = drop (length w) post"
  have post: "post = u @ post'" by (simp add: u_def post'_def)
  have len: "length u = length w" using p(3) by (simp add: u_def)
  then have u: "u \<noteq> []" using w(1) by auto
  have lw: "lower u = w" using p(4) by (simp add: u_def)
  have "is_word (hd u)" "is_word (last u)"
    using lower_word_chars[OF lw w(2)] u by auto
  then have hw: "is_word (hd post)" and lw': "is_word (last u)"
    using u post by auto
  have pn: "post \<noteq> []" using u post by simp
  have b1: "pre = [] \<or> \<not> is_word (last pre)"
    using p(2) wb_before[OF pn hw, of pre] by simp
  have "word_boundary (after (after None pre) u) post'"
    using p(5) by (simp only: u_def post'_def)
  then have b2: "post' = [] \<or> \<not> is_word (hd post')"
    using wb_after[OF u lw', of "after None pre" post'] by simp
  from b1 b2 show ?R
    unfolding whole_word_ci_def using p(1) post lw lower_lower[OF w(2)] by metis
next
  assume ?R
  then obtain pre u post' where r: "s = pre @ u @ post'" "lower u = lower w"
    "pre = [] \<or> \<not> is_word (last pre)" "post' = [] \<or> \<not> is_word (hd post')"
    by (auto simp: whole_word_ci_def)
  have lw: "lower u = w" using r(2) lower_lower[OF w(2)] by simp
  then have len: "length u = length w" by (auto simp: lower_def)
  then have u: "u \<noteq> []" using w(1) by auto
  have wd: "is_word (hd u)" "is_word (last u)"
    using lower_word_chars[OF lw w(2)] u by auto
  have "word_boundary (after None pre) (u @ post')"
    using wb_before[of "u @ post'" pre] u wd r(3) by simp
  moreover have "kw_at w (after None pre) (u @ post')"
    using wb_after[OF u wd(2), of "after None pre" post'] r(4) lw len
    by (simp add: kw_at_def)
  ultimately show ?L using r(1) by blast
qed

lemma keywords_search:
  "re_search INVESTIGATION_KEYWORDS s \<noteq> None \<longleftrightarrow>
     whole_word_ci ''fraud'' s \<or> whole_word_ci ''inconsistent'' s \<or> whole_word_ci ''staged'' s"
proof -
  have A: "re_search INVESTIGATION_KEYWORDS s \<noteq> None \<longleftrightarrow>
     (\<exists>pre post. s = pre @ post \<and> word_boundary (after None pre) post \<and>
         (kw_at ''fraud'' (after None pre) post \<or> kw_at ''inconsistent'' (after None pre) post \<or>
          kw_at ''staged'' (after None pre) post))"
    unfolding re_search_def search_from_iff keywords_match by (rule refl)
  have k1: "(\<exists>pre post. s = pre @ post \<and> word_boundary (after None pre) post \<and>
         kw_at ''fraud'' (after None pre) post) \<longleftrightarrow> whole_word_ci ''fraud'' s"
    by (rule kw_at_whole_word) (simp_all add: is_lower_def)
  have k2: "(\<exists>pre post. s = pre @ post \<and> word_boundary (after None pre) post \<and>
         kw_at ''inconsistent'' (after None pre) post) \<longleftrightarrow> whole_word_ci ''inconsistent'' s"
    by (rule kw_at_whole_word) (simp_all add: is_lower_def)
  have k3: "(\<exists>pre post. s = pre @ post \<and> word_boundary (after None pre) post \<and>
         kw_at ''staged'' (after None pre) post) \<longleftrightarrow> whole_word_ci ''staged'' s"
    by (rule kw_at_whole_word) (simp_all add: is_lower_def)
  show ?thesis
    unfolding A using k1 k2 k3 by blast
qed

lemma space_not_word: "is_space c \<Longrightarrow> \<not> is_word c"
  by (auto simp: is_space_def is_word_def is_upper_def is_lower_def is_digit_def Let_def)

lemma strip_decomp:
  "\<exists>a b. s = a @ strip s @ b \<and> list_all is_space a \<and> list_all is_space b"
proof -
  define t where "t = dropWhile is_space s"
  have 1: "s = takeWhile is_space s @ t" by (simp add: t_def)
  have "rev t = takeWhile is_space (rev t) @ dropWhile is_space (rev t)" by simp
  then have "t = rev (dropWhile is_space (rev t)) @ rev (takeWhile is_space (rev t))"
    by (metis rev_append rev_rev_ident)
  then have 2: "t = strip s @ rev (takeWhile is_space (rev t))"
    by (simp add: strip_def t_def)
  have "list_all is_space (takeWhile is_space s)"
    "list_all is_space (rev (takeWhile is_space (rev t)))"
    by (auto simp: list_all_iff dest: set_takeWhileD)
  with 1 2 show ?thesis by metis
qed

lemma strip_around:
  assumes "u \<noteq> []" "\<not> is_space (hd u)" "\<not> is_space (last u)"
  shows "strip (pre @ u @ post) =
           dropWhile is_space pre @ u @ rev (dropWhile is_space (rev post))"
proof -
  obtain x xs where u: "u = x # xs" using assms(1) by (cases u) auto
  have x: "\<not> is_space x" using assms(2) u by simp
  have 1: "dropWhile is_space (pre @ u @ post) = dropWhile is_space pre @ u @ post"
    using dropWhile_append3[of is_space x pre "xs @ post"] x by (simp add: u)
  obtain ys y where u2: "u = ys @ [y]" using assms(1) by (metis rev_exhaust)
  have y: "\<not> is_space y" using assms(3) u2 by simp
  have "rev (dropWhile is_space pre @ u @ post) = rev post @ y # (rev ys @ rev (dropWhile is_space pre))"
    by (simp add: u2)
  then have "dropWhile is_space (rev (dropWhile is_space pre @ u @ post)) =
      dropWhile is_space (rev post) @ y # (rev ys @ rev (dropWhile is_space pre))"
    using dropWhile_append3[of is_space y "rev post" "rev ys @ rev (dropWhile is_space pre)"] y
    by simp
  then show ?thesis
    unfolding strip_def 1 by (simp add: u2)
qed

lemma whole_word_ci_strip:
  assumes w: "w \<noteq> []" "\<forall>c\<in>set w. is_lower c"
  shows "whole_word_ci w (strip s) \<longleftrightarrow> whole_word_ci w s"
proof
  assume "whole_word_ci w (strip s)"
  then obtain pre u post where r: "strip s = pre @ u @ post" "lower u = lower w"
    "pre = [] \<or> \<not> is_word (last pre)" "post = [] \<or> \<not> is_word (hd post)"
    by (auto simp: whole_word_ci_def)
  obtain a b where ab: "s = a @ strip s @ b" "list_all is_space a" "list_all is_space b"
    using strip_decomp by blast
  have 1: "s = (a @ pre) @ u @ (post @ b)" using ab(1) r(1) by simp
  have 2: "a @ pre = [] \<or> \<not> is_word (last (a @ pre))"
    using r(3) ab(2) space_not_word by (cases "pre = []") (auto simp: list_all_iff)
  have 3: "post @ b = [] \<or> \<not> is_word (hd (post @ b))"
    using r(4) ab(3) space_not_word
    by (cases "post = []") (auto simp: list_all_iff hd_append intro: hd_in_set)
  show "whole_word_ci w s"
    unfolding whole_word_ci_def using 1 2 3 r(2) by blast
next
  assume "whole_word_ci w s"
  then obtain pre u post where r: "s = pre @ u @ post" "lower u = lower w"
    "pre = [] \<or> \<not> is_word (last pre)" "post = [] \<or> \<not> is_word (hd post)"
    by (auto simp: whole_word_ci_def)
  have lw: "lower u = w" using r(2) lower_lower[OF w(2)] by simp
  then have "length u = length w" by (auto simp: lower_def)
  then have u: "u \<noteq> []" using w(1) by auto
  have "is_word (hd u)" "is_word (last u)"
    using lower_word_chars[OF lw w(2)] u by auto
  then have ns: "\<not> is_space (hd u)" "\<not> is_space (last u)"
    using space_not_word by blast+
  define pre' where "pre' = dropWhile is_space pre"
  define post' where "post' = rev (dropWhile is_space (rev post))"
  have 1: "strip s = pre' @ u @ post'"
    unfolding r(1) pre'_def post'_def by (rule strip_around[OF u ns])
  have 2: "pre' = [] \<or> \<not> is_word (last pre')"
  proof (cases "pre' = []")
    case False
    have "pre = takeWhile is_space pre @ pre'" by (simp add: pre'_def)
    then have "last pre = last pre'" using False by (metis last_appendR)
    moreover have "pre \<noteq> []" using False by (auto simp: pre'_def)
    ultimately show ?thesis using r(3) by simp
  qed simp
  have 3: "post' = [] \<or> \<not> is_word (hd post')"
  proof (cases "post' = []")
    case False
    have "rev post = takeWhile is_space (rev post) @ dropWhile is_space (rev post)" by simp
    then have "post = post' @ rev (takeWhile is_space (rev post))"
      unfolding post'_def by (metis rev_append rev_rev_ident)
    then have "hd post = hd post'" using False by (metis hd_append2)
    moreover have "post \<noteq> []" using False by (auto simp: post'_def)
    ultimately show ?thesis using r(4) by simp
  qed simp
  show "whole_word_ci w (strip s)"
    unfolding whole_word_ci_def using 1 2 3 r(2) by blast
qed


lemma starts_with_iff: "starts_with p s \<longleftrightarrow> (\<exists>post. s = p @ post)"
  by (induction p s rule: starts_with.induct) auto

lemma py_in_iff: "py_in sub s \<longleftrightarrow> (\<exists>pre post. s = pre @ sub @ post)"
proof (induction s)
  case Nil
  then show ?case by auto
next
  case (Cons c cs)
  have "(\<exists>pre post. c # cs = pre @ sub @ post) \<longleftrightarrow>
        (\<exists>post. c # cs = sub @ post) \<or> (\<exists>pre post. cs = pre @ sub @ post)"
    (is "?L \<longleftrightarrow> ?R")
  proof
    assume ?L
    then obtain pre post where p: "c # cs = pre @ sub @ post" by blast
    show ?R
    proof (cases pre)
      case Nil
      with p show ?thesis by auto
    next
      case (Cons a pre')
      with p have "cs = pre' @ sub @ post" by simp
      then show ?thesis by blast
    qed
  next
    assume ?R
    then show ?L
    proof
      assume "\<exists>post. c # cs = sub @ post"
      then show ?L by (metis append_Nil)
    next
      assume "\<exists>pre post. cs = pre @ sub @ post"
      then obtain pre post where "cs = pre @ sub @ post" by blast
      then have "c # cs = (c # pre) @ sub @ post" by simp
      then show ?L by blast
    qed
  qed
  then show ?case using Cons.IH by (simp add: starts_with_iff)
qed

lemma join_mentions: "f \<in> set xs \<Longrightarrow> \<exists>pre post. join sep xs = pre @ f @ post"
proof (induction sep xs rule: join.induct)
  case (1 sep)
  then show ?case by simp
next
  case (2 sep x)
  then have "join sep [x] = [] @ f @ []" by simp
  then show ?case by blast
next
  case (3 sep x y ys)
  show ?case
  proof (cases "f = x")
    case True
    then have "join sep (x # y # ys) = [] @ f @ (sep @ join sep (y # ys))" by simp
    then show ?thesis by blast
  next
    case False
    then have "f \<in> set (y # ys)" using 3 by auto
    then obtain pre post where "join sep (y # ys) = pre @ f @ post" using 3 by blast
    then have "join sep (x # y # ys) = (x @ sep @ pre) @ f @ post" by simp
    then show ?thesis by blast
  qed
qed

definition mentions_keyword :: "string \<Rightarrow> bool" where
  "mentions_keyword d =
     (whole_word_ci ''fraud'' d \<or> whole_word_ci ''inconsistent'' d \<or> whole_word_ci ''staged'' d)"

lemma keywords_search_strip:
  "re_search INVESTIGATION_KEYWORDS (strip d) \<noteq> None \<longleftrightarrow> mentions_keyword d"
proof -
  have "whole_word_ci ''fraud'' (strip d) = whole_word_ci ''fraud'' d"
    "whole_word_ci ''inconsistent'' (strip d) = whole_word_ci ''inconsistent'' d"
    "whole_word_ci ''staged'' (strip d) = whole_word_ci ''staged'' d"
    by (rule whole_word_ci_strip; simp add: is_lower_def)+
  then show ?thesis
    unfolding keywords_search mentions_keyword_def by simp
qed

definition effective_threshold :: "Settings \<Rightarrow> pyfloat option \<Rightarrow> pyfloat" where
  "effective_threshold settings threshold =
     (case threshold of None \<Rightarrow> fast_track_damage_threshold settings | Some t \<Rightarrow> t)"

lemma compute_route_fst:
  "fst (compute_route fmt settings e missing threshold) =
     (if missing \<noteq> [] then ''Manual review''
      else if mentions_keyword (or_empty (description (incident e))) then ''Investigation Flag''
      else if lower (strip (or_empty (claim_type e))) = ''injury'' then ''Specialist Queue''
      else if \<exists>d. route_damage e = Some d \<and> float_lt d (effective_threshold settings threshold)
        then ''Fast-track''
      else ''Standard'')"
  unfolding compute_route_def Let_def keywords_search_strip
    effective_threshold_def[symmetric]
  by auto

lemma compute_route_manual_reasoning:
  assumes "f \<in> set missing"
  shows "py_in f (snd (compute_route fmt settings e missing threshold))"
proof -
  obtain pre post where "join '', '' missing = pre @ f @ post"
    using assms join_mentions by blast
  then have "''Missing mandatory field(s): '' @ join '', '' missing @ ''. Cannot auto-route.''
     = (''Missing mandatory field(s): '' @ pre) @ f @ (post @ ''. Cannot auto-route.'')"
    by simp
  then have "py_in f
        (''Missing mandatory field(s): '' @ join '', '' missing @ ''. Cannot auto-route.'')"
    unfolding py_in_iff by blast
  moreover have "missing \<noteq> []" using assms by auto
  ultimately show ?thesis by (simp add: compute_route_def)
qed

text \<open>
  Apart from the records of \<open>zero_skipped\<close>, and for finite amounts, the cascade is the
  stated one: the five rules in order, the first match winning, the fourth comparing the
  stated damage with the threshold.
\<close>

lemma compute_route_cascade:
  assumes "\<not> zero_skipped e"
    and "effective_threshold settings threshold = Finite t"
    and "stated_damage e = None \<or> (\<exists>x. stated_damage e = Some (Finite x))"
  shows "fst (compute_route fmt settings e missing threshold) =
     (if missing \<noteq> [] then ''Manual review''
      else if mentions_keyword (or_empty (description (incident e))) then ''Investigation Flag''
      else if lower (strip (or_empty (claim_type e))) = ''injury'' then ''Specialist Queue''
      else if \<exists>x. stated_damage e = Some (Finite x) \<and> x < t then ''Fast-track''
      else ''Standard'')"
proof -
  have "route_damage e = stated_damage e"
    using assms(1) route_damage_stated by blast
  moreover have "(\<exists>d. stated_damage e = Some d \<and> float_lt d (Finite t)) \<longleftrightarrow>
      (\<exists>x. stated_damage e = Some (Finite x) \<and> x < t)"
    using assms(3) by auto
  ultimately show ?thesis
    unfolding compute_route_fst assms(2) by simp
qed

definition example_fraud :: ExtractedFields where
  \<comment> \<open>scenario 3 of the routing tests: fraud words and a damage of 22000\<close>
  "example_fraud =
     example_complete \<lparr> incident := (incident example_complete)
        \<lparr> description := Some ''The story seems inconsistent and the damage looked staged. Possible fraud.'' \<rparr>,
        asset := Some ((the (asset example_complete))
          \<lparr> estimated_damage := Some (Finite 22000), AssetDetails.initial_estimate := Some (Finite 22000) \<rparr>),
        ExtractedFields.initial_estimate := Some (Finite 22000) \<rparr>"

definition example_damage :: "real \<Rightarrow> ExtractedFields" where
  \<comment> \<open>\<open>_minimal_extracted(estimated_damage=x)\<close>\<close>
  "example_damage x =
     example_complete \<lparr>
        asset := Some ((the (asset example_complete))
          \<lparr> estimated_damage := Some (Finite x), AssetDetails.initial_estimate := Some (Finite x) \<rparr>),
        ExtractedFields.initial_estimate := Some (Finite x) \<rparr>"

lemma no_keyword_Hit: "re_search INVESTIGATION_KEYWORDS (strip ''Hit'') = None"
  by code_simp

lemma auto_not_injury: "lower (strip ''auto'') \<noteq> ''injury''"
  by code_simp

lemma fraud_keyword:
  "re_search INVESTIGATION_KEYWORDS
     (strip ''The story seems inconsistent and the damage looked staged. Possible fraud.'') \<noteq> None"
  by code_simp

text \<open>
  The routes of the routing tests: a damage below the threshold, at the threshold and above
  it; an injury claim; fraud words with a damage below the threshold; a missing field.
\<close>

lemma compute_route_examples:
  "fst (compute_route fmt default_settings (example_damage 10000) [] None) = ''Fast-track''"
  "fst (compute_route fmt default_settings (example_damage 25000) [] None) = ''Standard''"
  "fst (compute_route fmt default_settings (example_damage 50000) [] None) = ''Standard''"
  "fst (compute_route fmt default_settings (example_damage 50000) [] (Some (Finite 60000)))
     = ''Fast-track''"
  "fst (compute_route fmt default_settings
          (example_damage 10000 \<lparr> claim_type := Some '' Injury '' \<rparr>) [] None)
     = ''Specialist Queue''"
  "fst (compute_route fmt default_settings example_fraud [] None) = ''Investigation Flag''"
  "fst (compute_route fmt default_settings example_fraud [''policy_number''] None)
     = ''Manual review''"
proof -
  have i: "lower (strip '' Injury '') = ''injury''" by code_simp
  show "fst (compute_route fmt default_settings (example_damage 10000) [] None) = ''Fast-track''"
    "fst (compute_route fmt default_settings (example_damage 25000) [] None) = ''Standard''"
    "fst (compute_route fmt default_settings (example_damage 50000) [] None) = ''Standard''"
    "fst (compute_route fmt default_settings (example_damage 50000) [] (Some (Finite 60000)))
       = ''Fast-track''"
    "fst (compute_route fmt default_settings
            (example_damage 10000 \<lparr> claim_type := Some '' Injury '' \<rparr>) [] None)
       = ''Specialist Queue''"
    using no_keyword_Hit auto_not_injury i
    by (simp_all add: compute_route_def Let_def route_damage_def example_damage_def
        example_complete_def default_settings_def or_empty_def del: One_nat_def)
  show "fst (compute_route fmt default_settings example_fraud [] None) = ''Investigation Flag''"
    using fraud_keyword
    by (simp add: compute_route_def Let_def example_fraud_def example_complete_def or_empty_def)
  show "fst (compute_route fmt default_settings example_fraud [''policy_number''] None)
     = ''Manual review''"
    by (simp add: compute_route_def)
qed

text \<open>
  Claim C1. On the complete record whose asset has an \<open>estimated_damage\<close> of 0.0 and an
  \<open>initial_estimate\<close> of 30000.0, no mandatory field is missing, the description holds no
  investigation word, the claim type is not "injury", and the stated damage is present and
  below the default threshold of 25000: the fourth rule applies. \<open>compute_route\<close> returns
  "Standard", the fifth.
\<close>

theorem compute_route_zero_estimate:
  "get_missing_mandatory_fields example_zero_estimate = [] \<and>
   \<not> mentions_keyword (or_empty (description (incident example_zero_estimate))) \<and>
   lower (strip (or_empty (claim_type example_zero_estimate))) \<noteq> ''injury'' \<and>
   stated_damage example_zero_estimate = Some (Finite 0) \<and>
   fast_track_damage_threshold default_settings = Finite 25000 \<and>
   compute_route fmt default_settings example_zero_estimate [] None =
     (''Standard'',
      ''All mandatory fields present; no special flags; above fast-track threshold; routed to standard workflow.'')"
proof -
  have d: "or_empty (description (incident example_zero_estimate)) = ''Hit''"
    and c: "or_empty (claim_type example_zero_estimate) = ''auto''"
    by (simp_all add: example_zero_estimate_def example_complete_def or_empty_def)
  have 1: "get_missing_mandatory_fields example_zero_estimate = []"
    by (rule missing_examples)
  have 2: "\<not> mentions_keyword (or_empty (description (incident example_zero_estimate)))"
    unfolding d keywords_search_strip[symmetric] using no_keyword_Hit by simp
  have 3: "lower (strip (or_empty (claim_type example_zero_estimate))) \<noteq> ''injury''"
    unfolding c by (rule auto_not_injury)
  have 4: "stated_damage example_zero_estimate = Some (Finite 0)"
    using route_damage_zero_skipped(2)[OF example_zero_estimate_skipped] .
  have 5: "fast_track_damage_threshold default_settings = Finite 25000"
    by (simp add: default_settings_def)
  have r: "route_damage example_zero_estimate = Some (Finite 30000)"
    by (simp add: route_damage_def example_zero_estimate_def example_complete_def)
  have k: "re_search INVESTIGATION_KEYWORDS
             (strip (or_empty (description (incident example_zero_estimate)))) = None"
    unfolding d by (rule no_keyword_Hit)
  have 6: "compute_route fmt default_settings example_zero_estimate [] None =
     (''Standard'',
      ''All mandatory fields present; no special flags; above fast-track threshold; routed to standard workflow.'')"
    using 3 unfolding compute_route_def Let_def k r 5 by simp
  from 1 2 3 4 5 6 show ?thesis by blast
qed


section \<open>The label and placeholder classifier (extraction/parser.py)\<close>

definition sp :: rx where
  \<comment> \<open>\<open>\s\<close>\<close>
  "sp = Cls is_space"

definition LABEL_PATTERNS :: rx where
  \<comment> \<open>\<open>_LABEL_PATTERNS\<close>, IGNORECASE: \<open>^(OTHER|STREET:|CITY,?\s*STATE,?\s*ZIP:?|...|VEHICLE)$\<close>\<close>
  "LABEL_PATTERNS =
     seqs [Bol,
       Grp 1 (alts [
         lit_ci ''OTHER'',
         lit_ci ''STREET:'',
         seqs [lit_ci ''CITY'', Opt (lit_ci '',''), Star sp, lit_ci ''STATE'', Opt (lit_ci '',''),
               Star sp, lit_ci ''ZIP'', Opt (lit_ci '':'')],
         seqs [lit_ci ''NAME'', Plus sp, lit_ci ''OF'', Plus sp, lit_ci ''INSURED''],
         seqs [lit_ci ''INSURED'', Cls (ch (CHR 0x27)), lit_ci ''S'', Plus sp, lit_ci ''MAILING''],
         seqs [lit_ci ''PRIMARY'', Plus sp, lit_ci ''PHONE''],
         seqs [lit_ci ''SECONDARY'', Plus sp, lit_ci ''E-MAIL''],
         seqs [lit_ci ''PRIMARY'', Plus sp, lit_ci ''E-MAIL''],
         seqs [lit_ci ''DRIVER'', Cls (ch (CHR 0x27)), lit_ci ''S'', Plus sp, lit_ci ''NAME''],
         seqs [lit_ci ''OWNER'', Cls (ch (CHR 0x27)), lit_ci ''S'', Plus sp, lit_ci ''NAME''],
         seqs [lit_ci ''CHECK'', Plus sp, lit_ci ''IF'', Plus sp, lit_ci ''SAME''],
         seqs [lit_ci ''PHONE'', Star sp, lit_ci ''#''],
         lit_ci ''CELL'',
         lit_ci ''HOME'',
         lit_ci ''BUS'',
         seqs [lit_ci ''LOSS'', Star sp, Eol],
         seqs [lit_ci ''ACORD'', Plus sp, lit_ci ''101''],
         seqs [lit_ci ''ADDITIONAL'', Plus sp, lit_ci ''REMARKS''],
         seqs [lit_ci ''INSURED'', Plus sp, lit_ci ''VEHICLE''],
         lit_ci ''SECONDARY'',
         lit_ci ''PRIMARY'',
         lit_ci ''NUMBER'',
         lit_ci ''VEHICLE'']),
       Eol]"

definition LABEL_SUBSTRINGS :: "string list" where
  "LABEL_SUBSTRINGS =
     [''same as owner'', ''same as insured'', ''mailing address'', ''additional remarks'',
      ''may be attached'', ''if more space'', ''check if same'', ''phone #'', ''e-mail address'',
      ''if not at specific'', ''street address'', ''(first, middle, last)'',
      ''first, middle, last'']"

definition is_punct :: "char \<Rightarrow> bool" where
  \<comment> \<open>the class \<open>[\s.:\-]\<close>\<close>
  "is_punct c = (is_space c \<or> c = CHR ''.'' \<or> c = CHR '':'' \<or> c = CHR ''-'')"

definition PUNCT_ONLY :: rx where
  \<comment> \<open>\<open>^[\s.:\-]+$\<close>\<close>
  "PUNCT_ONLY = seqs [Bol, Plus (Cls is_punct), Eol]"

definition is_form_label_or_placeholder :: "string option \<Rightarrow> nat \<Rightarrow> bool" where
  \<comment> \<open>\<open>_is_form_label_or_placeholder(value, max_reasonable_len)\<close>; True rejects the value\<close>
  "is_form_label_or_placeholder value max_reasonable_len =
     (if value = None \<or> the value = [] \<or> strip (the value) = [] then True
      else
        let s = strip (the value) in
        if (s = '':'' \<or> s = []) \<or> re_match PUNCT_ONLY s \<noteq> None then True
        else if length s > max_reasonable_len \<and> py_in [newline] s \<and> count_list s newline > 2
          then True
        else if re_match LABEL_PATTERNS s \<noteq> None then True
        else
          let lower = lower s in
          if list_ex (\<lambda>sub. py_in sub lower) LABEL_SUBSTRINGS then True
          else if lower \<in> set [''number'', ''name'', ''date'', ''address'', ''other''] then True
          else if upper s = ''OTHER'' \<or> upper s = ''Y'' \<or> upper s = ''N'' then True
          else False)"

definition default_max_reasonable_len :: nat where
  "default_max_reasonable_len = 200"


lemma star_iter_all:
  assumes f: "\<And>pc c cs g. p c \<Longrightarrow> f (pc, c # cs, g) = [(Some c, cs, g)]"
    "\<And>pc g. f (pc, [], g) = []"
  shows "list_all p s \<Longrightarrow> length s \<le> k \<Longrightarrow>
   \<exists>rest. star_iter f k (pc, s, g) = (after pc s, [], g) # rest"
proof (induction s arbitrary: pc k)
  case Nil
  then show ?case by (cases k) (simp_all add: after_def f)
next
  case (Cons c cs)
  then obtain k' where k: "k = Suc k'" by (cases k) auto
  have "list_all p cs" "length cs \<le> k'" "p c" using Cons.prems k by auto
  then obtain rest where
    "star_iter f k' (Some c, cs, g) = (after (Some c) cs, [], g) # rest"
    using Cons.IH by blast
  moreover have "after (Some c) cs = after pc (c # cs)" by (simp add: after_def)
  ultimately show ?case using \<open>p c\<close> by (simp add: k f)
qed

lemma star_cls_all:
  "list_all p s \<Longrightarrow> length s \<le> k \<Longrightarrow>
   \<exists>rest. star_iter (rx_match (Cls p)) k (pc, s, g) = (after pc s, [], g) # rest"
  by (rule star_iter_all) simp_all

lemma punct_only_match:
  assumes "s \<noteq> []" "list_all is_punct s"
  shows "re_match PUNCT_ONLY s \<noteq> None"
proof -
  obtain c cs where s: "s = c # cs" using assms(1) by (cases s) auto
  have "is_punct c" "list_all is_punct cs" using assms(2) s by auto
  obtain rest where r: "star_iter (rx_match (Cls is_punct)) (length cs) (Some c, cs, [])
      = (after (Some c) cs, [], []) # rest"
    using star_cls_all[OF \<open>list_all is_punct cs\<close>, of "length cs" "Some c" "[]"] by auto
  show ?thesis
    using \<open>is_punct c\<close> r by (simp add: re_match_def PUNCT_ONLY_def Plus_def s)
qed

lemma set_strip: "set (strip s) \<subseteq> set s"
proof -
  have "set (strip s) = set (dropWhile is_space (rev (dropWhile is_space s)))"
    by (simp add: strip_def)
  also have "\<dots> \<subseteq> set (rev (dropWhile is_space s))"
    by (auto dest: set_dropWhileD)
  also have "\<dots> \<subseteq> set s"
    by (auto dest: set_dropWhileD)
  finally show ?thesis .
qed

lemma py_in_single: "py_in [c] s \<longleftrightarrow> c \<in> set s"
  by (induction s) auto

lemma count_list_pos: "0 < count_list s c \<Longrightarrow> c \<in> set s"
  by (induction s) (auto split: if_splits)

lemma reject_blank:
  "list_all is_space v \<Longrightarrow> is_form_label_or_placeholder (Some v) n"
  by (simp add: is_form_label_or_placeholder_def strip_Nil_iff)

lemma reject_punct:
  assumes "list_all is_punct v"
  shows "is_form_label_or_placeholder (Some v) n"
proof (cases "strip v = []")
  case True
  then show ?thesis by (simp add: is_form_label_or_placeholder_def)
next
  case False
  have "list_all is_punct (strip v)"
    using assms set_strip[of v] by (auto simp: list_all_iff)
  then have "re_match PUNCT_ONLY (strip v) \<noteq> None"
    using False by (rule punct_only_match[rotated])
  then show ?thesis by (simp add: is_form_label_or_placeholder_def Let_def)
qed

lemma reject_blob:
  assumes "n < length (strip v)" "2 < count_list (strip v) newline"
  shows "is_form_label_or_placeholder (Some v) n"
proof -
  have "py_in [newline] (strip v)"
    using assms(2) count_list_pos[of "strip v" newline] by (simp add: py_in_single)
  then show ?thesis
    using assms by (simp add: is_form_label_or_placeholder_def Let_def)
qed

lemma reject_placeholder_word:
  assumes "lower (strip v) \<in> set [''number'', ''name'', ''date'', ''address'', ''other'']"
  shows "is_form_label_or_placeholder (Some v) n"
  using assms by (simp add: is_form_label_or_placeholder_def Let_def)

lemma reject_other_y_n:
  assumes "upper (strip v) \<in> set [''OTHER'', ''Y'', ''N'']"
  shows "is_form_label_or_placeholder (Some v) n"
  using assms by (auto simp: is_form_label_or_placeholder_def Let_def)

lemma reject_label:
  assumes "re_match LABEL_PATTERNS (strip v) \<noteq> None"
  shows "is_form_label_or_placeholder (Some v) n"
  using assms by (simp add: is_form_label_or_placeholder_def Let_def)

lemma reject_fragment:
  assumes "f \<in> set LABEL_SUBSTRINGS" "py_in f (lower (strip v))"
  shows "is_form_label_or_placeholder (Some v) n"
proof -
  have "list_ex (\<lambda>sub. py_in sub (lower (strip v))) LABEL_SUBSTRINGS"
    using assms unfolding list_ex_iff by blast
  then show ?thesis by (simp add: is_form_label_or_placeholder_def Let_def)
qed

definition fragments :: "string list" where
  \<comment> \<open>the boilerplate fragments that rule 5 of the specification lists\<close>
  "fragments =
     [''same as owner'', ''same as insured'', ''mailing address'', ''additional remarks'',
      ''may be attached'', ''if more space'', ''check if same'', ''phone #'', ''e-mail address'',
      ''if not at specific'', ''street address'', ''first, middle, last'']"

lemma fragments_listed: "set fragments \<subseteq> set LABEL_SUBSTRINGS"
  by (simp add: fragments_def LABEL_SUBSTRINGS_def)

definition label_phrases :: "string list" where
  \<comment> \<open>spellings of the form-label phrases of rule 4, at least one for each phrase of the
      catalog\<close>
  "label_phrases =
     [''OTHER'', ''Street:'', ''CITY, STATE, ZIP:'', ''city state zip'', ''CityStateZip'',
      ''NAME OF INSURED'', ''Name  of   Insured'',
      ''INSURED'' @ [CHR 0x27] @ ''S MAILING'', ''Primary Phone'', ''SECONDARY E-MAIL'',
      ''primary e-mail'', ''DRIVER'' @ [CHR 0x27] @ ''S NAME'',
      ''Owner'' @ [CHR 0x27] @ ''s Name'', ''CHECK IF SAME'', ''PHONE #'', ''Phone#'',
      ''cell'', ''HOME'', ''Bus'', ''LOSS'', ''ACORD 101'', ''Additional Remarks'',
      ''INSURED VEHICLE'', ''SECONDARY'', ''primary'', ''NUMBER'', ''Vehicle'']"

lemma label_phrases_match:
  "list_all (\<lambda>v. re_match LABEL_PATTERNS (strip v) \<noteq> None) label_phrases"
  by (simp add: label_phrases_def re_match_def LABEL_PATTERNS_def rx_match_lit_ci_any strip_def
      sp_def Plus_def Opt_def char_eval after_def newline_def ch_def)

text \<open>
  The rule for long multi-line blobs measures the trimmed value: a string that is longer
  than the bound and holds more than two newlines only in its surrounding white space is
  accepted.
\<close>

theorem classifier_blob_counterexample:
  "default_max_reasonable_len < length (''AB12'' @ replicate 200 newline) \<and>
   2 < count_list (''AB12'' @ replicate 200 newline) newline \<and>
   \<not> is_form_label_or_placeholder (Some (''AB12'' @ replicate 200 newline))
       default_max_reasonable_len"
  by code_simp

text \<open>
  Claim C5, amended. On ASCII strings the classifier rejects every string of the boilerplate
  catalogs: the absent value, every empty or whitespace-only string, every string made only
  of whitespace, colons, periods and hyphens, every string whose trimmed form is longer than
  the bound and contains more than two newline characters, every string whose trimmed form
  matches the catalog of form-label phrases (among them the spellings of \<open>label_phrases\<close>),
  every string that contains one of the listed fragments in any letter case, every string
  whose trimmed lower-cased form is "number", "name", "date", "address" or "other", and
  every string whose trimmed upper-cased form is "OTHER", "Y" or "N"; it accepts
  "4500 Interstate 35, Austin TX 78745" at the default bound.
\<close>

theorem classifier_rejects_boilerplate:
  assumes "ascii v"
  shows
  "is_form_label_or_placeholder None n \<and>
   (list_all is_space v \<longrightarrow> is_form_label_or_placeholder (Some v) n) \<and>
   (list_all is_punct v \<longrightarrow> is_form_label_or_placeholder (Some v) n) \<and>
   (n < length (strip v) \<and> 2 < count_list (strip v) newline \<longrightarrow>
      is_form_label_or_placeholder (Some v) n) \<and>
   (re_match LABEL_PATTERNS (strip v) \<noteq> None \<longrightarrow> is_form_label_or_placeholder (Some v) n) \<and>
   list_all (\<lambda>p. is_form_label_or_placeholder (Some p) n) label_phrases \<and>
   (list_ex (\<lambda>f. py_in f (lower (strip v)))
      [''same as owner'', ''same as insured'', ''mailing address'', ''additional remarks'',
       ''may be attached'', ''if more space'', ''check if same'', ''phone #'',
       ''e-mail address'', ''if not at specific'', ''street address'', ''first, middle, last'']
      \<longrightarrow> is_form_label_or_placeholder (Some v) n) \<and>
   (lower (strip v) \<in> set [''number'', ''name'', ''date'', ''address'', ''other''] \<longrightarrow>
      is_form_label_or_placeholder (Some v) n) \<and>
   (upper (strip v) \<in> set [''OTHER'', ''Y'', ''N''] \<longrightarrow>
      is_form_label_or_placeholder (Some v) n) \<and>
   \<not> is_form_label_or_placeholder (Some ''4500 Interstate 35, Austin TX 78745'')
       default_max_reasonable_len"
proof -
  have a: "\<not> is_form_label_or_placeholder (Some ''4500 Interstate 35, Austin TX 78745'')
       default_max_reasonable_len"
    by code_simp
  have b: "is_form_label_or_placeholder None n"
    by (simp add: is_form_label_or_placeholder_def)
  have c: "list_all (\<lambda>p. is_form_label_or_placeholder (Some p) n) label_phrases"
    using label_phrases_match reject_label by (simp add: list_all_iff)
  have d: "is_form_label_or_placeholder (Some v) n"
    if "list_ex (\<lambda>f. py_in f (lower (strip v)))
      [''same as owner'', ''same as insured'', ''mailing address'', ''additional remarks'',
       ''may be attached'', ''if more space'', ''check if same'', ''phone #'',
       ''e-mail address'', ''if not at specific'', ''street address'', ''first, middle, last'']"
  proof -
    from that obtain f where f: "f \<in> set fragments" "py_in f (lower (strip v))"
      unfolding list_ex_iff fragments_def by blast
    then show ?thesis using fragments_listed reject_fragment by blast
  qed
  show ?thesis
    using a b c d reject_blank reject_punct reject_blob reject_label
      reject_placeholder_word reject_other_y_n
    by blast
qed

theorem classifier_rejects_boilerplate_witness:
  "ascii ''   '' \<and> is_form_label_or_placeholder (Some ''   '') 200 \<and>
   ascii '' : - .'' \<and> is_form_label_or_placeholder (Some '' : - .'') 200 \<and>
   ascii (''a'' @ [newline, newline, newline] @ ''b'') \<and>
   is_form_label_or_placeholder (Some (''a'' @ [newline, newline, newline] @ ''b'')) 2 \<and>
   ascii '' Acord  101 '' \<and> is_form_label_or_placeholder (Some '' Acord  101 '') 200 \<and>
   ascii ''Jane Roe (Same As Owner)'' \<and>
   is_form_label_or_placeholder (Some ''Jane Roe (Same As Owner)'') 200 \<and>
   ascii '' Number '' \<and> is_form_label_or_placeholder (Some '' Number '') 200 \<and>
   ascii ''y'' \<and> is_form_label_or_placeholder (Some ''y'') 200"
proof -
  have a1: "ascii ''   ''" and a2: "ascii '' : - .''"
    and a3: "ascii (''a'' @ [newline, newline, newline] @ ''b'')"
    and a4: "ascii '' Acord  101 ''" and a5: "ascii ''Jane Roe (Same As Owner)''"
    and a6: "ascii '' Number ''" and a7: "ascii ''y''"
    by code_simp+
  have 1: "list_all is_space ''   ''" by code_simp
  have 2: "list_all is_punct '' : - .''" by code_simp
  have 3: "2 < length (strip (''a'' @ [newline, newline, newline] @ ''b'')) \<and>
           2 < count_list (strip (''a'' @ [newline, newline, newline] @ ''b'')) newline"
    by code_simp
  have 4: "re_match LABEL_PATTERNS (strip '' Acord  101 '') \<noteq> None" by code_simp
  have 5: "list_ex (\<lambda>f. py_in f (lower (strip ''Jane Roe (Same As Owner)'')))
      [''same as owner'', ''same as insured'', ''mailing address'', ''additional remarks'',
       ''may be attached'', ''if more space'', ''check if same'', ''phone #'',
       ''e-mail address'', ''if not at specific'', ''street address'', ''first, middle, last'']"
    by code_simp
  have 6: "lower (strip '' Number '') \<in> set [''number'', ''name'', ''date'', ''address'', ''other'']"
    by code_simp
  have 7: "upper (strip ''y'') \<in> set [''OTHER'', ''Y'', ''N'']" by code_simp
  note c2 = conjunct2
  have r1: "is_form_label_or_placeholder (Some ''   '') 200"
    by (rule classifier_rejects_boilerplate
          [OF a1, of 200, THEN c2, THEN conjunct1, THEN mp, OF 1])
  have r2: "is_form_label_or_placeholder (Some '' : - .'') 200"
    by (rule classifier_rejects_boilerplate
          [OF a2, of 200, THEN c2, THEN c2, THEN conjunct1, THEN mp, OF 2])
  have r3: "is_form_label_or_placeholder (Some (''a'' @ [newline, newline, newline] @ ''b'')) 2"
    by (rule classifier_rejects_boilerplate
          [OF a3, of 2, THEN c2, THEN c2, THEN c2, THEN conjunct1, THEN mp, OF 3])
  have r4: "is_form_label_or_placeholder (Some '' Acord  101 '') 200"
    by (rule classifier_rejects_boilerplate
          [OF a4, of 200, THEN c2, THEN c2, THEN c2, THEN c2, THEN conjunct1, THEN mp, OF 4])
  have r5: "is_form_label_or_placeholder (Some ''Jane Roe (Same As Owner)'') 200"
    by (rule classifier_rejects_boilerplate
          [OF a5, of 200, THEN c2, THEN c2, THEN c2, THEN c2, THEN c2, THEN c2,
           THEN conjunct1, THEN mp, OF 5])
  have r6: "is_form_label_or_placeholder (Some '' Number '') 200"
    by (rule classifier_rejects_boilerplate
          [OF a6, of 200, THEN c2, THEN c2, THEN c2, THEN c2, THEN c2, THEN c2, THEN c2,
           THEN conjunct1, THEN mp, OF 6])
  have r7: "is_form_label_or_placeholder (Some ''y'') 200"
    by (rule classifier_rejects_boilerplate
          [OF a7, of 200, THEN c2, THEN c2, THEN c2, THEN c2, THEN c2, THEN c2, THEN c2,
           THEN c2, THEN conjunct1, THEN mp, OF 7])
  show ?thesis
    by (intro conjI a1 a2 a3 a4 a5 a6 a7 r1 r2 r3 r4 r5 r6 r7)
qed


section \<open>Errors and the parsing helpers (extraction/parser.py)\<close>

datatype pyerror = AttributeError | ValueError | KeyError | TypeError

definition ebind :: "pyerror + 'a \<Rightarrow> ('a \<Rightarrow> pyerror + 'b) \<Rightarrow> pyerror + 'b" where
  \<comment> \<open>run the second step unless the first raised\<close>
  "ebind x f = (case x of Inl e \<Rightarrow> Inl e | Inr v \<Rightarrow> f v)"

definition capture :: "rx \<Rightarrow> string \<Rightarrow> pyerror + string option" where
  \<comment> \<open>\<open>m = re.search(pattern, text)\<close> and, when it matched, \<open>m.group(1)\<close>, on which a string
      method is called: a group that took no part in the match raises AttributeError\<close>
  "capture pattern text =
     (case re_search pattern text of
        None \<Rightarrow> Inr None
      | Some m \<Rightarrow> (case group m 1 of None \<Rightarrow> Inl AttributeError | Some w \<Rightarrow> Inr (Some w)))"

definition group_text :: "(nat \<times> string) list \<Rightarrow> pyerror + string" where
  \<comment> \<open>\<open>m.group(1)\<close> used as a string\<close>
  "group_text m = (case group m 1 of None \<Rightarrow> Inl AttributeError | Some w \<Rightarrow> Inr w)"

definition digit_value :: "char \<Rightarrow> nat" where
  "digit_value c = of_char c - 48"

definition decimal :: "string \<Rightarrow> nat" where
  "decimal ds = foldl (\<lambda>a c. 10 * a + digit_value c) 0 ds"

definition py_int :: "string \<Rightarrow> pyerror + int" where
  \<comment> \<open>\<open>int(s)\<close> on text: white space around, an optional sign, decimal digits (underscores
      between digits are not modelled)\<close>
  "py_int s =
     (let t = strip s;
          neg = (t \<noteq> [] \<and> hd t = CHR ''-'');
          ds = (if t \<noteq> [] \<and> (hd t = CHR ''-'' \<or> hd t = CHR ''+'') then tl t else t)
      in if ds \<noteq> [] \<and> list_all is_digit ds
         then Inr (if neg then - int (decimal ds) else int (decimal ds))
         else Inl ValueError)"

definition to_float :: "real \<Rightarrow> pyfloat" where
  \<comment> \<open>a decimal value as a float: infinite from the overflow threshold of binary64 on\<close>
  "to_float v = (if 2 ^ 1024 - 2 ^ 970 \<le> v then PosInf else Finite v)"

definition py_float :: "string \<Rightarrow> pyerror + pyfloat" where
  \<comment> \<open>\<open>float(s)\<close> on text made of digits and periods, which is all \<open>_parse_float\<close> passes:
      digits with at most one period and at least one digit\<close>
  "py_float s =
     (let ip = takeWhile is_digit s; rest = dropWhile is_digit s in
      if rest = [] then
        (if ip = [] then Inl ValueError else Inr (to_float (real (decimal ip))))
      else if hd rest = CHR ''.'' \<and> list_all is_digit (tl rest) \<and> (ip \<noteq> [] \<or> tl rest \<noteq> []) then
        Inr (to_float (real (decimal ip) + real (decimal (tl rest)) / 10 ^ length (tl rest)))
      else Inl ValueError)"

definition parse_float :: "string option \<Rightarrow> pyerror + pyfloat option" where
  \<comment> \<open>\<open>_parse_float\<close>\<close>
  "parse_float s =
     (if s = None then Inr None
      else
        let s = filter (\<lambda>c. is_digit c \<or> c = CHR ''.'') (the s) in
        if s = [] then Inr None
        else (case py_float s of
                Inr v \<Rightarrow> Inr (Some v)
              | Inl ValueError \<Rightarrow> Inr None
              | Inl e \<Rightarrow> Inl e))"

definition YEAR_TOKEN :: rx where
  \<comment> \<open>\<open>\b(19|20)\d{2}\b\<close>; group 0 is the whole match\<close>
  "YEAR_TOKEN =
     Grp 0 (seqs [WordB, Grp 1 (Alt (lit ''19'') (lit ''20'')), times 2 (Cls is_digit), WordB])"

definition parse_year :: "string option \<Rightarrow> pyerror + int option" where
  \<comment> \<open>\<open>_parse_year\<close>\<close>
  "parse_year s =
     (if s = None \<or> the s = [] then Inr None
      else (case re_search YEAR_TOKEN (the s) of
              None \<Rightarrow> Inr None
            | Some m \<Rightarrow> (case group m 0 of
                           None \<Rightarrow> Inl AttributeError
                         | Some w \<Rightarrow> ebind (py_int w) (\<lambda>y. Inr (Some y)))))"

subsection \<open>Dates\<close>

datatype directive = Dm | Dd | DY | Dlit char

definition crange :: "char \<Rightarrow> char \<Rightarrow> char \<Rightarrow> bool" where
  \<comment> \<open>the class \<open>[a-b]\<close>\<close>
  "crange a b = (\<lambda>c. (of_char a :: nat) \<le> of_char c \<and> (of_char c :: nat) \<le> of_char b)"

fun directive_rx :: "directive \<Rightarrow> rx" where
  \<comment> \<open>the pattern \<open>datetime.strptime\<close> compiles for a directive; groups 1, 2, 3 are m, d, Y\<close>
  "directive_rx Dm =
     Grp 1 (alts [Seq (Cls (ch CHR ''1'')) (Cls (crange CHR ''0'' CHR ''2'')),
                  Seq (Cls (ch CHR ''0'')) (Cls (crange CHR ''1'' CHR ''9'')),
                  Cls (crange CHR ''1'' CHR ''9'')])"
| "directive_rx Dd =
     Grp 2 (alts [Seq (Cls (ch CHR ''3'')) (Cls (crange CHR ''0'' CHR ''1'')),
                  Seq (Cls (crange CHR ''1'' CHR ''2'')) (Cls is_digit),
                  Seq (Cls (ch CHR ''0'')) (Cls (crange CHR ''1'' CHR ''9'')),
                  Cls (crange CHR ''1'' CHR ''9''),
                  Seq (Cls (ch CHR '' '')) (Cls (crange CHR ''1'' CHR ''9''))])"
| "directive_rx DY = Grp 3 (times 4 (Cls is_digit))"
| "directive_rx (Dlit c) = Cls (ci (ch c))"

definition format_rx :: "directive list \<Rightarrow> rx" where
  "format_rx fmt = seqs (map directive_rx fmt)"

definition re_match_end :: "rx \<Rightarrow> string \<Rightarrow> (string \<times> (nat \<times> string) list) option" where
  \<comment> \<open>\<open>re.match\<close>, with the text left after the match\<close>
  "re_match_end r s =
     (case rx_match r (None, s, []) of [] \<Rightarrow> None | st # _ \<Rightarrow> Some (remaining st, groups st))"

definition leap_year :: "int \<Rightarrow> bool" where
  "leap_year y = (y mod 4 = 0 \<and> (y mod 100 \<noteq> 0 \<or> y mod 400 = 0))"

definition days_in_month :: "int \<Rightarrow> int \<Rightarrow> int" where
  "days_in_month y m =
     (if m = 2 then (if leap_year y then 29 else 28)
      else if m = 4 \<or> m = 6 \<or> m = 9 \<or> m = 11 then 30 else 31)"

definition make_date :: "int \<Rightarrow> int \<Rightarrow> int \<Rightarrow> pyerror + pydate" where
  \<comment> \<open>the date constructor: ValueError outside the calendar\<close>
  "make_date y m d =
     (if 1 \<le> y \<and> y \<le> 9999 \<and> 1 \<le> m \<and> m \<le> 12 \<and> 1 \<le> d \<and> d \<le> days_in_month y m
      then Inr (Date y m d) else Inl ValueError)"

definition group_item :: "(nat \<times> string) list \<Rightarrow> nat \<Rightarrow> pyerror + string" where
  \<comment> \<open>an entry of \<open>found.groupdict()\<close>\<close>
  "group_item g n = (case group g n of None \<Rightarrow> Inl KeyError | Some w \<Rightarrow> Inr w)"

definition strptime :: "string \<Rightarrow> directive list \<Rightarrow> pyerror + pydate" where
  \<comment> \<open>\<open>datetime.strptime(s, fmt).date()\<close> for a format of \<open>%m\<close>, \<open>%d\<close>, \<open>%Y\<close> and separators\<close>
  "strptime s fmt =
     (case re_match_end (format_rx fmt) s of
        None \<Rightarrow> Inl ValueError
      | Some (rest, g) \<Rightarrow>
          if rest \<noteq> [] then Inl ValueError
          else
            ebind (group_item g 3) (\<lambda>ys. ebind (py_int ys) (\<lambda>y.
            ebind (group_item g 1) (\<lambda>ms. ebind (py_int ms) (\<lambda>m.
            ebind (group_item g 2) (\<lambda>ds. ebind (py_int ds) (\<lambda>d.
            make_date y m d)))))))"

definition DATE_FORMATS :: "directive list list" where
  \<comment> \<open>\<open>("%m/%d/%Y", "%Y-%m-%d", "%d/%m/%Y", "%m-%d-%Y")\<close>\<close>
  "DATE_FORMATS =
     [[Dm, Dlit CHR ''/'', Dd, Dlit CHR ''/'', DY],
      [DY, Dlit CHR ''-'', Dm, Dlit CHR ''-'', Dd],
      [Dd, Dlit CHR ''/'', Dm, Dlit CHR ''/'', DY],
      [Dm, Dlit CHR ''-'', Dd, Dlit CHR ''-'', DY]]"

fun try_formats :: "directive list list \<Rightarrow> string \<Rightarrow> pyerror + pydate option" where
  \<comment> \<open>the loop of \<open>_parse_date\<close>: a ValueError moves on to the next format\<close>
  "try_formats [] s = Inr None"
| "try_formats (fmt # fmts) s =
     (case strptime (take 10 s) fmt of
        Inr d \<Rightarrow> Inr (Some d)
      | Inl ValueError \<Rightarrow> try_formats fmts s
      | Inl e \<Rightarrow> Inl e)"

definition parse_date :: "string option \<Rightarrow> pyerror + pydate option" where
  \<comment> \<open>\<open>_parse_date\<close>\<close>
  "parse_date s =
     (if s = None \<or> the s = [] \<or> strip (the s) = [] then Inr None
      else try_formats DATE_FORMATS (strip (the s)))"


section \<open>The patterns of the field extractor\<close>

definition colon_sp :: rx where
  \<comment> \<open>\<open>[:\s]\<close>\<close>
  "colon_sp = Cls (\<lambda>c. c = CHR '':'' \<or> is_space c)"

definition not_nl :: rx where
  \<comment> \<open>\<open>[^\n]\<close>\<close>
  "not_nl = Cls (\<lambda>c. c \<noteq> newline)"

definition nonspace :: rx where
  \<comment> \<open>\<open>\S\<close> and \<open>[^\s\n]\<close>\<close>
  "nonspace = Cls (\<lambda>c. \<not> is_space c)"

definition dg :: rx where
  \<comment> \<open>\<open>\d\<close>\<close>
  "dg = Cls is_digit"

definition nl :: rx where
  "nl = Cls (ch newline)"

definition apostrophe :: rx where
  "apostrophe = Cls (ch (CHR 0x27))"

definition alnum_dash :: "char \<Rightarrow> bool" where
  \<comment> \<open>\<open>[A-Za-z0-9\-]\<close>\<close>
  "alnum_dash c = (is_upper c \<or> is_lower c \<or> is_digit c \<or> c = CHR ''-'')"

definition is_vin_char :: "char \<Rightarrow> bool" where
  \<comment> \<open>\<open>[A-HJ-NPR-Z0-9]\<close>\<close>
  "is_vin_char c =
     (crange CHR ''A'' CHR ''H'' c \<or> crange CHR ''J'' CHR ''N'' c \<or> c = CHR ''P'' \<or>
      crange CHR ''R'' CHR ''Z'' c \<or> is_digit c)"

definition POLICY_NUMBER_RX :: rx where
  \<comment> \<open>\<open>POLICY\s*NUMBER[:\s]*([A-Za-z0-9\-]+)\<close>, IGNORECASE\<close>
  "POLICY_NUMBER_RX =
     seqs [lit_ci ''POLICY'', Star sp, lit_ci ''NUMBER'', Star colon_sp,
           Grp 1 (Plus (Cls (ci alnum_dash)))]"

definition NAIC_POLICY_RX :: rx where
  \<comment> \<open>\<open>NAIC\s*CODE[:\s]*\S+\s*CARRIER[:\s]*\S+\s*POLICY\s*NUMBER[:\s]*([^\s\n]+)\<close>, IGNORECASE\<close>
  "NAIC_POLICY_RX =
     seqs [lit_ci ''NAIC'', Star sp, lit_ci ''CODE'', Star colon_sp, Plus nonspace, Star sp,
           lit_ci ''CARRIER'', Star colon_sp, Plus nonspace, Star sp,
           lit_ci ''POLICY'', Star sp, lit_ci ''NUMBER'', Star colon_sp, Grp 1 (Plus nonspace)]"

definition GENERIC_POLICY_RX :: rx where
  \<comment> \<open>\<open>(?:policy\s*#?|policy\s*number)\s*[:\s]*([A-Za-z0-9\-]+)\<close>, on the lower-cased text\<close>
  "GENERIC_POLICY_RX =
     seqs [Alt (seqs [lit ''policy'', Star sp, Opt (lit ''#'')])
               (seqs [lit ''policy'', Star sp, lit ''number'']),
           Star sp, Star colon_sp, Grp 1 (Plus (Cls alnum_dash))]"

definition INSURED_NAME_RX :: rx where
  \<comment> \<open>\<open>NAME\s+OF\s+INSURED\s*\([^)]*\)\s*([^\n]+)\<close>, IGNORECASE\<close>
  "INSURED_NAME_RX =
     seqs [lit_ci ''NAME'', Plus sp, lit_ci ''OF'', Plus sp, lit_ci ''INSURED'', Star sp,
           Cls (ch CHR ''(''), Star (Cls (\<lambda>c. c \<noteq> CHR '')'')), Cls (ch CHR '')''), Star sp,
           Grp 1 (Plus not_nl)]"

definition GENERIC_NAME_RX :: rx where
  \<comment> \<open>\<open>(?:insured|policyholder)\s*(?:name)?\s*[:\s]*([^\n]+)\<close>, on the lower-cased text\<close>
  "GENERIC_NAME_RX =
     seqs [Alt (lit ''insured'') (lit ''policyholder''), Star sp, Opt (lit ''name''), Star sp,
           Star colon_sp, Grp 1 (Plus not_nl)]"

definition DATE_TIME_RX :: rx where
  \<comment> \<open>\<open>DATE\s+OF\s+LOSS\s+AND\s+TIME\s*([^\n]+)\<close>, IGNORECASE\<close>
  "DATE_TIME_RX =
     seqs [lit_ci ''DATE'', Plus sp, lit_ci ''OF'', Plus sp, lit_ci ''LOSS'', Plus sp,
           lit_ci ''AND'', Plus sp, lit_ci ''TIME'', Star sp, Grp 1 (Plus not_nl)]"

definition DATE_TOKEN_RX :: rx where
  \<comment> \<open>\<open>(\d{1,2}/\d{1,2}/\d{2,4})\<close>\<close>
  "DATE_TOKEN_RX =
     Grp 1 (seqs [between_times 1 2 dg, Cls (ch CHR ''/''), between_times 1 2 dg,
                  Cls (ch CHR ''/''), between_times 2 4 dg])"

definition TIME_TOKEN_RX :: rx where
  \<comment> \<open>\<open>(\d{1,2}\s*:\s*\d{2}\s*(?:AM|PM)?|\d{1,2}\s*AM|\d{1,2}\s*PM)\<close>, IGNORECASE\<close>
  "TIME_TOKEN_RX =
     Grp 1 (alts [
       seqs [between_times 1 2 dg, Star sp, Cls (ch CHR '':''), Star sp, times 2 dg, Star sp,
             Opt (Alt (lit_ci ''AM'') (lit_ci ''PM''))],
       seqs [between_times 1 2 dg, Star sp, lit_ci ''AM''],
       seqs [between_times 1 2 dg, Star sp, lit_ci ''PM'']])"

definition GENERIC_DATE_RX :: rx where
  \<comment> \<open>\<open>(?:loss\s+date|date\s+of\s+loss|incident\s+date)\s*[:\s]*(\d{1,2}[/\-]\d{1,2}[/\-]\d{2,4})\<close>,
      on the lower-cased text\<close>
  "GENERIC_DATE_RX =
     seqs [alts [seqs [lit ''loss'', Plus sp, lit ''date''],
                 seqs [lit ''date'', Plus sp, lit ''of'', Plus sp, lit ''loss''],
                 seqs [lit ''incident'', Plus sp, lit ''date'']],
           Star sp, Star colon_sp,
           Grp 1 (seqs [between_times 1 2 dg, Cls (\<lambda>c. c = CHR ''/'' \<or> c = CHR ''-''),
                        between_times 1 2 dg, Cls (\<lambda>c. c = CHR ''/'' \<or> c = CHR ''-''),
                        between_times 2 4 dg])]"

definition LOCATION_STREET_RX :: rx where
  \<comment> \<open>\<open>LOCATION\s+OF\s+LOSS\s*(?:STREET[:\s]*)?([^\n]+?)(?:\s*CITY|$)\<close>, IGNORECASE\<close>
  "LOCATION_STREET_RX =
     seqs [lit_ci ''LOCATION'', Plus sp, lit_ci ''OF'', Plus sp, lit_ci ''LOSS'', Star sp,
           Opt (seqs [lit_ci ''STREET'', Star colon_sp]), Grp 1 (LazyPlus not_nl),
           Alt (seqs [Star sp, lit_ci ''CITY'']) Eol]"

definition CITY_STATE_ZIP_RX :: rx where
  \<comment> \<open>\<open>CITY,?\s*STATE,?\s*ZIP[:\s]*([^\n]+)\<close>, IGNORECASE\<close>
  "CITY_STATE_ZIP_RX =
     seqs [lit_ci ''CITY'', Opt (lit_ci '',''), Star sp, lit_ci ''STATE'', Opt (lit_ci '',''),
           Star sp, lit_ci ''ZIP'', Star colon_sp, Grp 1 (Plus not_nl)]"

definition COUNTRY_RX :: rx where
  \<comment> \<open>\<open>COUNTRY[:\s]*([^\n]+)\<close>, IGNORECASE\<close>
  "COUNTRY_RX = seqs [lit_ci ''COUNTRY'', Star colon_sp, Grp 1 (Plus not_nl)]"

definition DESCRIPTION_ACCIDENT_RX :: rx where
  \<comment> \<open>\<open>DESCRIPTION\s+OF\s+ACCIDENT\s*([^\n]+(?:\n(?!POLICY|INSURED|LOCATION|DATE)[^\n]+)*)\<close>,
      IGNORECASE\<close>
  "DESCRIPTION_ACCIDENT_RX =
     seqs [lit_ci ''DESCRIPTION'', Plus sp, lit_ci ''OF'', Plus sp, lit_ci ''ACCIDENT'', Star sp,
           Grp 1 (seqs [Plus not_nl,
                        Star (seqs [nl,
                                    NotAhead (alts [lit_ci ''POLICY'', lit_ci ''INSURED'',
                                                    lit_ci ''LOCATION'', lit_ci ''DATE'']),
                                    Plus not_nl])])]"

definition GENERIC_DESCRIPTION_RX :: rx where
  \<comment> \<open>\<open>(?:description\s+of\s+(?:loss|accident)|accident\s+description)\s*[:\s]*([^\n]+(?:\n[^\n]+)*?)(?=\n[A-Z\s]{3,}:|\n\n|$)\<close>,
      on the lower-cased text\<close>
  "GENERIC_DESCRIPTION_RX =
     seqs [Alt (seqs [lit ''description'', Plus sp, lit ''of'', Plus sp,
                      Alt (lit ''loss'') (lit ''accident'')])
               (seqs [lit ''accident'', Plus sp, lit ''description'']),
           Star sp, Star colon_sp,
           Grp 1 (seqs [Plus not_nl, LazyStar (seqs [nl, Plus not_nl])]),
           Ahead (alts [seqs [nl, times 3 (Cls (\<lambda>c. is_upper c \<or> is_space c)),
                              Star (Cls (\<lambda>c. is_upper c \<or> is_space c)), Cls (ch CHR '':'')],
                        seqs [nl, nl],
                        Eol])]"

definition FINAL_DESCRIPTION_RX :: rx where
  \<comment> \<open>\<open>Description(?:\s+of\s+(?:loss|accident))?\s*[:\s]*([^\n]+(?:\n[^\n]+)*)\<close>, IGNORECASE\<close>
  "FINAL_DESCRIPTION_RX =
     seqs [lit_ci ''Description'',
           Opt (seqs [Plus sp, lit_ci ''of'', Plus sp, Alt (lit_ci ''loss'') (lit_ci ''accident'')]),
           Star sp, Star colon_sp,
           Grp 1 (seqs [Plus not_nl, Star (seqs [nl, Plus not_nl])])]"

definition GENERIC_LOCATION_RX :: rx where
  \<comment> \<open>\<open>Location(?:\s+of\s+loss)?\s*[:\s]*([^\n]+)\<close>, IGNORECASE\<close>
  "GENERIC_LOCATION_RX =
     seqs [lit_ci ''Location'',
           Opt (seqs [Plus sp, lit_ci ''of'', Plus sp, lit_ci ''loss'']),
           Star sp, Star colon_sp, Grp 1 (Plus not_nl)]"

definition DRIVER_RX :: rx where
  \<comment> \<open>\<open>DRIVER'S\s+NAME\s+AND\s+ADDRESS\s*([^\n]+)\<close>, IGNORECASE\<close>
  "DRIVER_RX =
     seqs [lit_ci ''DRIVER'', apostrophe, lit_ci ''S'', Plus sp, lit_ci ''NAME'', Plus sp,
           lit_ci ''AND'', Plus sp, lit_ci ''ADDRESS'', Star sp, Grp 1 (Plus not_nl)]"

definition OWNER_RX :: rx where
  \<comment> \<open>\<open>OWNER'S\s+NAME\s+AND\s+ADDRESS\s*([^\n]+)\<close>, IGNORECASE\<close>
  "OWNER_RX =
     seqs [lit_ci ''OWNER'', apostrophe, lit_ci ''S'', Plus sp, lit_ci ''NAME'', Plus sp,
           lit_ci ''AND'', Plus sp, lit_ci ''ADDRESS'', Star sp, Grp 1 (Plus not_nl)]"

definition PHONE_RX :: rx where
  \<comment> \<open>\<open>PRIMARY\s+PHONE\s*#\s*[:\s]*([^\n]+)\<close>, IGNORECASE\<close>
  "PHONE_RX =
     seqs [lit_ci ''PRIMARY'', Plus sp, lit_ci ''PHONE'', Star sp, Cls (ch CHR ''#''), Star sp,
           Star colon_sp, Grp 1 (Plus not_nl)]"

definition EMAIL_RX :: rx where
  \<comment> \<open>\<open>PRIMARY\s+E-MAIL\s*[:\s]*([^\s\n@]+@[^\s\n]+)\<close>, IGNORECASE\<close>
  "EMAIL_RX =
     seqs [lit_ci ''PRIMARY'', Plus sp, lit_ci ''E-MAIL'', Star sp, Star colon_sp,
           Grp 1 (seqs [Plus (Cls (\<lambda>c. \<not> is_space c \<and> c \<noteq> CHR ''@'')), Cls (ch CHR ''@''),
                        Plus nonspace])]"

definition VIN_RX :: rx where
  \<comment> \<open>\<open>V\.?I\.?N\.?[:\s]*([A-HJ-NPR-Z0-9]{17})\<close>, IGNORECASE\<close>
  "VIN_RX =
     seqs [lit_ci ''V'', Opt (Cls (ch CHR ''.'')), lit_ci ''I'', Opt (Cls (ch CHR ''.'')),
           lit_ci ''N'', Opt (Cls (ch CHR ''.'')), Star colon_sp,
           Grp 1 (times 17 (Cls (ci is_vin_char)))]"

definition MAKE_RX :: rx where
  \<comment> \<open>\<open>MAKE[:\s]*([^\n\t]+?)(?:\s+YEAR|\s+MODEL|$)\<close>, IGNORECASE\<close>
  "MAKE_RX =
     seqs [lit_ci ''MAKE'', Star colon_sp,
           Grp 1 (LazyPlus (Cls (\<lambda>c. c \<noteq> newline \<and> c \<noteq> CHR 0x09))),
           alts [seqs [Plus sp, lit_ci ''YEAR''], seqs [Plus sp, lit_ci ''MODEL''], Eol]]"

definition MODEL_RX :: rx where
  \<comment> \<open>\<open>MODEL[:\s]*([^\n\t]+?)(?:\s+BODY|\s+TYPE|$)\<close>, IGNORECASE\<close>
  "MODEL_RX =
     seqs [lit_ci ''MODEL'', Star colon_sp,
           Grp 1 (LazyPlus (Cls (\<lambda>c. c \<noteq> newline \<and> c \<noteq> CHR 0x09))),
           alts [seqs [Plus sp, lit_ci ''BODY''], seqs [Plus sp, lit_ci ''TYPE''], Eol]]"

definition YEAR_RX :: rx where
  \<comment> \<open>\<open>YEAR[:\s]*(\d{4})\<close>, IGNORECASE\<close>
  "YEAR_RX = seqs [lit_ci ''YEAR'', Star colon_sp, Grp 1 (times 4 dg)]"

definition ESTIMATE_AMOUNT_RX :: rx where
  \<comment> \<open>\<open>ESTIMATE\s+AMOUNT[:\s]*([^\n]+)\<close>, IGNORECASE\<close>
  "ESTIMATE_AMOUNT_RX =
     seqs [lit_ci ''ESTIMATE'', Plus sp, lit_ci ''AMOUNT'', Star colon_sp, Grp 1 (Plus not_nl)]"

definition GENERIC_ESTIMATE_RX :: rx where
  \<comment> \<open>\<open>(?:Estimate|initial\s+estimate)\s*[:\s]*([^\n]+)\<close>, IGNORECASE\<close>
  "GENERIC_ESTIMATE_RX =
     seqs [Alt (lit_ci ''Estimate'') (seqs [lit_ci ''initial'', Plus sp, lit_ci ''estimate'']),
           Star sp, Star colon_sp, Grp 1 (Plus not_nl)]"


section \<open>The field extractor (extraction/parser.py)\<close>

definition falsy :: "string option \<Rightarrow> bool" where
  \<comment> \<open>\<open>not x\<close> for an optional string: None and the empty string are false\<close>
  "falsy x = (x = None \<or> x = Some [])"

definition accept_capture ::
  "rx \<Rightarrow> string \<Rightarrow> (string \<Rightarrow> string) \<Rightarrow> nat \<Rightarrow> string option \<Rightarrow> pyerror + string option" where
  \<comment> \<open>the recurring step \<open>m = re.search(pattern, text)\<close>; \<open>if m: val = trim(m.group(1))\<close>;
      \<open>if not _is_form_label_or_placeholder(val, bound): field = val\<close>\<close>
  "accept_capture pattern text trim bound field =
     ebind (capture pattern text) (\<lambda>m.
       case m of
         None \<Rightarrow> Inr field
       | Some w \<Rightarrow>
           let val = trim w in
           Inr (if \<not> is_form_label_or_placeholder (Some val) bound then Some val else field))"

fun policy_number_loop :: "rx list \<Rightarrow> string \<Rightarrow> string option \<Rightarrow> pyerror + string option" where
  \<comment> \<open>the \<open>for pattern, setter in [...]\<close> loop: every pattern is tried in turn\<close>
  "policy_number_loop [] text pn = Inr pn"
| "policy_number_loop (pattern # patterns) text pn =
     ebind (accept_capture pattern text strip 50 pn) (policy_number_loop patterns text)"

definition extract_policy_number :: "string \<Rightarrow> string \<Rightarrow> pyerror + string option" where
  "extract_policy_number text lower_text =
     ebind (policy_number_loop [POLICY_NUMBER_RX, NAIC_POLICY_RX] text None) (\<lambda>pn.
       if falsy pn then accept_capture GENERIC_POLICY_RX lower_text strip 50 pn else Inr pn)"

definition extract_policyholder_name :: "string \<Rightarrow> string \<Rightarrow> pyerror + string option" where
  "extract_policyholder_name text lower_text =
     ebind (accept_capture INSURED_NAME_RX text (\<lambda>w. take 200 (strip w))
              default_max_reasonable_len None) (\<lambda>nm.
       if falsy nm
       then accept_capture GENERIC_NAME_RX lower_text (\<lambda>w. take 200 (strip w))
              default_max_reasonable_len nm
       else Inr nm)"

definition extract_policy :: "string \<Rightarrow> string \<Rightarrow> pyerror + PolicyInfo" where
  "extract_policy text lower_text =
     ebind (extract_policy_number text lower_text) (\<lambda>pn.
     ebind (extract_policyholder_name text lower_text) (\<lambda>nm.
       Inr \<lparr> policy_number = pn, policyholder_name = nm,
             effective_date_start = None, effective_date_end = None \<rparr>))"

definition extract_date_time :: "string \<Rightarrow> string \<Rightarrow> pyerror + pydate option \<times> string option" where
  "extract_date_time text lower_text =
     ebind (capture DATE_TIME_RX text) (\<lambda>m.
     ebind (case m of
              None \<Rightarrow> Inr (None, None)
            | Some part \<Rightarrow>
                ebind (case re_search DATE_TOKEN_RX part of
                         None \<Rightarrow> Inr None
                       | Some d \<Rightarrow> parse_date (group d 1)) (\<lambda>dt.
                ebind (capture TIME_TOKEN_RX part) (\<lambda>t.
                  Inr (dt, map_option strip t)))) (\<lambda>(dt, tm).
     ebind (if dt = None
            then (case re_search GENERIC_DATE_RX lower_text of
                    None \<Rightarrow> Inr dt
                  | Some m \<Rightarrow> parse_date (group m 1))
            else Inr dt) (\<lambda>dt.
       Inr (dt, tm))))"

definition extract_description :: "string \<Rightarrow> string \<Rightarrow> pyerror + string option" where
  "extract_description text lower_text =
     ebind (accept_capture DESCRIPTION_ACCIDENT_RX text (\<lambda>w. take 2000 (strip w)) 2000 None) (\<lambda>d.
     ebind (if falsy d
            then accept_capture GENERIC_DESCRIPTION_RX lower_text (\<lambda>w. take 2000 (strip w)) 2000 d
            else Inr d) (\<lambda>d.
       if falsy d
       then accept_capture FINAL_DESCRIPTION_RX text (\<lambda>w. take 2000 (strip w)) 2000 d
       else Inr d))"

definition extract_incident :: "string \<Rightarrow> string \<Rightarrow> pyerror + IncidentInfo" where
  "extract_incident text lower_text =
     ebind (extract_date_time text lower_text) (\<lambda>(dt, tm).
     ebind (accept_capture LOCATION_STREET_RX text (\<lambda>w. take 300 (strip w))
              default_max_reasonable_len None) (\<lambda>street.
     ebind (accept_capture CITY_STATE_ZIP_RX text strip 100 None) (\<lambda>csz.
     ebind (accept_capture COUNTRY_RX text strip 80 None) (\<lambda>country.
     ebind (extract_description text lower_text) (\<lambda>desc.
     ebind (if falsy street \<and> falsy csz
            then accept_capture GENERIC_LOCATION_RX text (\<lambda>w. take 300 (strip w))
                   default_max_reasonable_len street
            else Inr street) (\<lambda>street.
       Inr \<lparr> date = dt, time = tm, location_street = street, location_city_state_zip = csz,
             location_country = country, description = desc \<rparr>))))))"

definition party_named :: "string \<Rightarrow> InvolvedParty" where
  \<comment> \<open>\<open>InvolvedParty(name=val)\<close>\<close>
  "party_named val =
     \<lparr> name = Some val, address = None, phone = None, email = None, relation_to_insured = None \<rparr>"

definition extract_claimant :: "string \<Rightarrow> string option \<Rightarrow> pyerror + InvolvedParty option" where
  "extract_claimant text policyholder =
     ebind (accept_capture DRIVER_RX text strip default_max_reasonable_len None) (\<lambda>driver.
     ebind (if driver = None
            then accept_capture OWNER_RX text strip default_max_reasonable_len None
            else Inr driver) (\<lambda>nm.
       let claimant = (case nm of
                         Some val \<Rightarrow> Some (party_named val)
                       | None \<Rightarrow> if \<not> falsy policyholder
                                 then Some (party_named (the policyholder)) else None)
       in
       case claimant of
         None \<Rightarrow> Inr None
       | Some c \<Rightarrow>
           ebind (accept_capture PHONE_RX text (\<lambda>w. take 50 (strip w)) 30 (phone c)) (\<lambda>ph.
           ebind (capture EMAIL_RX text) (\<lambda>m.
             Inr (Some (c \<lparr> phone := ph,
                            email := (case m of None \<Rightarrow> email c | Some w \<Rightarrow> Some (strip w)) \<rparr>))))))"

definition filtered_value :: "string option \<Rightarrow> string option" where
  \<comment> \<open>\<open>val = m.group(1).strip() if m else None\<close>, already stripped here, then
      \<open>if val and _is_form_label_or_placeholder(val, max_reasonable_len=50): val = None\<close>\<close>
  "filtered_value val =
     (if \<not> falsy val \<and> is_form_label_or_placeholder val 50 then None else val)"

definition stripped_group :: "(nat \<times> string) list option \<Rightarrow> pyerror + string option" where
  \<comment> \<open>\<open>m.group(1).strip() if m else None\<close>\<close>
  "stripped_group m =
     (case m of None \<Rightarrow> Inr None | Some g \<Rightarrow> ebind (group_text g) (\<lambda>w. Inr (Some (strip w))))"

definition int_group :: "(nat \<times> string) list option \<Rightarrow> pyerror + int option" where
  \<comment> \<open>\<open>int(m.group(1)) if m else None\<close>\<close>
  "int_group m =
     (case m of
        None \<Rightarrow> Inr None
      | Some g \<Rightarrow> (case group g 1 of
                     None \<Rightarrow> Inl TypeError
                   | Some w \<Rightarrow> ebind (py_int w) (\<lambda>y. Inr (Some y))))"

definition float_group :: "(nat \<times> string) list option \<Rightarrow> pyerror + pyfloat option" where
  \<comment> \<open>\<open>_parse_float(m.group(1)) if m else None\<close>\<close>
  "float_group m = (case m of None \<Rightarrow> Inr None | Some g \<Rightarrow> parse_float (group g 1))"

definition extract_asset :: "string \<Rightarrow> pyerror + AssetDetails option" where
  "extract_asset text =
     (let vin = re_search VIN_RX text;
          make = re_search MAKE_RX text;
          model = re_search MODEL_RX text;
          year = re_search YEAR_RX text;
          est = re_search ESTIMATE_AMOUNT_RX text;
          est = (if est = None then re_search GENERIC_ESTIMATE_RX text else est)
      in
      if vin \<noteq> None \<or> make \<noteq> None \<or> model \<noteq> None \<or> year \<noteq> None \<or> est \<noteq> None then
        ebind (stripped_group make) (\<lambda>make_val.
        ebind (stripped_group model) (\<lambda>model_val.
        ebind (stripped_group vin) (\<lambda>vin_val.
        ebind (int_group year) (\<lambda>year_val.
        ebind (float_group est) (\<lambda>damage.
        ebind (float_group est) (\<lambda>estimate.
          let asset = \<lparr> asset_type = Some ''vehicle'', asset_id = vin_val,
                         make_field = filtered_value make_val, model = filtered_value model_val,
                         year = year_val, estimated_damage = damage,
                         AssetDetails.initial_estimate = estimate \<rparr>
          in
          Inr (Some (if AssetDetails.initial_estimate asset = None \<and> estimated_damage asset \<noteq> None
                     then asset \<lparr> AssetDetails.initial_estimate := estimated_damage asset \<rparr>
                     else asset))))))))
      else Inr None)"

definition infer_claim_type :: "string option \<Rightarrow> string \<Rightarrow> string \<Rightarrow> string" where
  \<comment> \<open>the claim type from the description, the lower-cased text and the upper-cased text\<close>
  "infer_claim_type desc lower_text full =
     (let desc_for_type = lower (or_empty desc) in
      if desc_for_type \<noteq> [] \<and> (py_in ''injury'' desc_for_type \<or> py_in ''injured'' desc_for_type)
        then ''injury''
      else if py_in ''vehicle'' lower_text \<or> py_in ''automobile'' lower_text \<or>
              py_in ''auto'' lower_text \<or> py_in ''ACORD'' full
        then ''auto''
      else ''property'')"

definition extract_from_raw_text :: "string \<Rightarrow> pyerror + ExtractedFields" where
  \<comment> \<open>\<open>_extract_from_raw_text\<close>; the unused list \<open>lines\<close> is left out\<close>
  "extract_from_raw_text text =
     (let full = upper text;
          lower_text = lower text
      in
      ebind (extract_policy text lower_text) (\<lambda>policy.
      ebind (extract_incident text lower_text) (\<lambda>incident.
      ebind (extract_claimant text (policyholder_name policy)) (\<lambda>claimant.
      ebind (extract_asset text) (\<lambda>asset.
        let claim_type = infer_claim_type (description incident) lower_text full;
            attachments = (if py_in ''attachment'' lower_text \<or> py_in ''attached'' lower_text
                           then [''document_attached''] else [])
        in
        Inr \<lparr> policy = policy, incident = incident, claimant = claimant, third_parties = [],
              contact_details = claimant, asset = asset, claim_type = Some claim_type,
              attachments = attachments,
              ExtractedFields.initial_estimate =
                (case asset of None \<Rightarrow> None | Some a \<Rightarrow> AssetDetails.initial_estimate a) \<rparr>)))))"

definition extract_from_text :: "string \<Rightarrow> pyerror + ExtractedFields" where
  "extract_from_text content = extract_from_raw_text content"


section \<open>Facts about every pattern\<close>

lemma star_iter_rel:
  assumes f: "\<And>st st'. st' \<in> set (f st) \<Longrightarrow> R st st'"
    and refl: "\<And>st. R st st"
    and trans: "\<And>a b c. R a b \<Longrightarrow> R b c \<Longrightarrow> R a c"
  shows "st' \<in> set (star_iter f k st) \<Longrightarrow> R st st'"
proof (induction k arbitrary: st)
  case 0
  then show ?case using refl by simp
next
  case (Suc k)
  then consider "st' = st" | mid where "mid \<in> set (f st)" "st' \<in> set (star_iter f k mid)"
    by auto
  then show ?case
  proof cases
    case 1
    then show ?thesis using refl by simp
  next
    case 2
    then show ?thesis using f Suc.IH trans by blast
  qed
qed

lemma lazy_iter_rel:
  assumes f: "\<And>st st'. st' \<in> set (f st) \<Longrightarrow> R st st'"
    and refl: "\<And>st. R st st"
    and trans: "\<And>a b c. R a b \<Longrightarrow> R b c \<Longrightarrow> R a c"
  shows "st' \<in> set (lazy_iter f k st) \<Longrightarrow> R st st'"
proof (induction k arbitrary: st)
  case 0
  then show ?case using refl by simp
next
  case (Suc k)
  then consider "st' = st" | mid where "mid \<in> set (f st)" "st' \<in> set (lazy_iter f k mid)"
    by auto
  then show ?case
  proof cases
    case 1
    then show ?thesis using refl by simp
  next
    case 2
    then show ?thesis using f Suc.IH trans by blast
  qed
qed

definition consumed :: "mstate \<Rightarrow> mstate \<Rightarrow> string \<Rightarrow> bool" where
  "consumed st st' w = (remaining st = w @ remaining st')"

lemma remaining_set_group: "remaining (set_group n s st) = remaining st"
  by (cases st) simp

lemma groups_set_group:
  "groups (set_group n s st) = (n, take (length s - length (remaining st)) s) # groups st"
  by (cases st) simp

lemma rx_match_suffix:
  "st' \<in> set (rx_match r st) \<Longrightarrow> \<exists>w. remaining st = w @ remaining st'"
proof (induction r arbitrary: st st')
  case (Cls p)
  then show ?case by (auto split: prod.splits list.splits if_splits)
next
  case (Seq a b)
  then obtain mid where "mid \<in> set (rx_match a st)" "st' \<in> set (rx_match b mid)" by auto
  then obtain u v where "remaining st = u @ remaining mid" "remaining mid = v @ remaining st'"
    using Seq.IH by blast
  then have "remaining st = (u @ v) @ remaining st'" by simp
  then show ?case by blast
next
  case (Star r)
  have "st' \<in> set (star_iter (rx_match r) (length (remaining st)) st)" using Star.prems by simp
  then show ?case
  proof (rule star_iter_rel[where R="\<lambda>a b. \<exists>w. remaining a = w @ remaining b", rotated -1])
    show "\<And>st st'. st' \<in> set (rx_match r st) \<Longrightarrow> \<exists>w. remaining st = w @ remaining st'"
      using Star.IH by blast
    show "\<And>st. \<exists>w. remaining st = w @ remaining st" by simp
    show "\<And>a b c. \<exists>w. remaining a = w @ remaining b \<Longrightarrow>
         \<exists>w. remaining b = w @ remaining c \<Longrightarrow> \<exists>w. remaining a = w @ remaining c"
      by (metis append.assoc)
  qed
next
  case (LazyStar r)
  have "st' \<in> set (lazy_iter (rx_match r) (length (remaining st)) st)" using LazyStar.prems by simp
  then show ?case
  proof (rule lazy_iter_rel[where R="\<lambda>a b. \<exists>w. remaining a = w @ remaining b", rotated -1])
    show "\<And>st st'. st' \<in> set (rx_match r st) \<Longrightarrow> \<exists>w. remaining st = w @ remaining st'"
      using LazyStar.IH by blast
    show "\<And>st. \<exists>w. remaining st = w @ remaining st" by simp
    show "\<And>a b c. \<exists>w. remaining a = w @ remaining b \<Longrightarrow>
         \<exists>w. remaining b = w @ remaining c \<Longrightarrow> \<exists>w. remaining a = w @ remaining c"
      by (metis append.assoc)
  qed
next
  case (Grp n r)
  then obtain mid where m: "mid \<in> set (rx_match r st)" "st' = set_group n (remaining st) mid"
    by auto
  then show ?case using Grp.IH[OF m(1)] by (simp add: remaining_set_group)
qed (auto split: prod.splits if_splits)


lemma rx_match_groups_grow:
  "st' \<in> set (rx_match r st) \<Longrightarrow> \<exists>new. groups st' = new @ groups st"
proof (induction r arbitrary: st st')
  case (Cls p)
  then show ?case by (auto split: prod.splits list.splits if_splits)
next
  case (Seq a b)
  then obtain mid where "mid \<in> set (rx_match a st)" "st' \<in> set (rx_match b mid)" by auto
  then obtain u v where "groups mid = u @ groups st" "groups st' = v @ groups mid"
    using Seq.IH by blast
  then have "groups st' = (v @ u) @ groups st" by simp
  then show ?case by blast
next
  case (Star r)
  have "st' \<in> set (star_iter (rx_match r) (length (remaining st)) st)" using Star.prems by simp
  then show ?case
  proof (rule star_iter_rel[where R="\<lambda>a b. \<exists>new. groups b = new @ groups a", rotated -1])
    show "\<And>st st'. st' \<in> set (rx_match r st) \<Longrightarrow> \<exists>new. groups st' = new @ groups st"
      using Star.IH by blast
    show "\<And>st. \<exists>new. groups st = new @ groups st" by simp
    show "\<And>a b c. \<exists>new. groups b = new @ groups a \<Longrightarrow>
         \<exists>new. groups c = new @ groups b \<Longrightarrow> \<exists>new. groups c = new @ groups a"
      by (metis append.assoc)
  qed
next
  case (LazyStar r)
  have "st' \<in> set (lazy_iter (rx_match r) (length (remaining st)) st)" using LazyStar.prems by simp
  then show ?case
  proof (rule lazy_iter_rel[where R="\<lambda>a b. \<exists>new. groups b = new @ groups a", rotated -1])
    show "\<And>st st'. st' \<in> set (rx_match r st) \<Longrightarrow> \<exists>new. groups st' = new @ groups st"
      using LazyStar.IH by blast
    show "\<And>st. \<exists>new. groups st = new @ groups st" by simp
    show "\<And>a b c. \<exists>new. groups b = new @ groups a \<Longrightarrow>
         \<exists>new. groups c = new @ groups b \<Longrightarrow> \<exists>new. groups c = new @ groups a"
      by (metis append.assoc)
  qed
next
  case (Grp n r)
  then obtain mid where m: "mid \<in> set (rx_match r st)" "st' = set_group n (remaining st) mid"
    by auto
  then obtain u where "groups mid = u @ groups st" using Grp.IH by blast
  then have "groups st' = ((n, take (length (remaining st) - length (remaining mid)) (remaining st)) # u)
       @ groups st"
    using m(2) by (simp add: groups_set_group)
  then show ?case by blast
qed (auto split: prod.splits if_splits)

lemma group_stays:
  assumes "st' \<in> set (rx_match r st)" "map_of (groups st) n \<noteq> None"
  shows "map_of (groups st') n \<noteq> None"
proof -
  obtain new where "groups st' = new @ groups st"
    using assms(1) rx_match_groups_grow by blast
  then show ?thesis using assms(2) by (auto simp: map_of_append)
qed

fun sets_group :: "nat \<Rightarrow> rx \<Rightarrow> bool" where
  "sets_group n (Grp k r) = (k = n \<or> sets_group n r)"
| "sets_group n (Seq a b) = (sets_group n a \<or> sets_group n b)"
| "sets_group n (Alt a b) = (sets_group n a \<and> sets_group n b)"
| "sets_group n r = False"

lemma sets_group_ok:
  "sets_group n r \<Longrightarrow> st' \<in> set (rx_match r st) \<Longrightarrow> map_of (groups st') n \<noteq> None"
proof (induction r arbitrary: st st')
  case (Seq a b)
  then obtain mid where m: "mid \<in> set (rx_match a st)" "st' \<in> set (rx_match b mid)" by auto
  show ?case
  proof (cases "sets_group n a")
    case True
    then have "map_of (groups mid) n \<noteq> None" using Seq.IH(1) m(1) by blast
    then show ?thesis using group_stays[OF m(2)] by blast
  next
    case False
    then have "sets_group n b" using Seq.prems by simp
    then show ?thesis using Seq.IH(2) m(2) by blast
  qed
next
  case (Alt a b)
  have s: "sets_group n a" "sets_group n b" using Alt.prems(1) by simp_all
  have "st' \<in> set (rx_match a st) \<or> st' \<in> set (rx_match b st)" using Alt.prems(2) by simp
  then show ?case using Alt.IH s by blast
next
  case (Grp k r)
  then obtain mid where m: "mid \<in> set (rx_match r st)" "st' = set_group k (remaining st) mid"
    by auto
  show ?case
  proof (cases "k = n")
    case True
    then show ?thesis using m(2) by (simp add: groups_set_group)
  next
    case False
    then have "map_of (groups mid) n \<noteq> None" using Grp m(1) by auto
    then show ?thesis using m(2) by (simp add: groups_set_group)
  qed
qed simp_all

definition consumes :: "(string \<Rightarrow> bool) \<Rightarrow> rx \<Rightarrow> bool" where
  "consumes Q r =
     (\<forall>st st' w. st' \<in> set (rx_match r st) \<longrightarrow> remaining st = w @ remaining st' \<longrightarrow> Q w)"

primrec grp_inv :: "nat \<Rightarrow> (string \<Rightarrow> bool) \<Rightarrow> rx \<Rightarrow> bool" where
  "grp_inv n Q (Cls p) = True"
| "grp_inv n Q Eps = True"
| "grp_inv n Q (Seq a b) = (grp_inv n Q a \<and> grp_inv n Q b)"
| "grp_inv n Q (Alt a b) = (grp_inv n Q a \<and> grp_inv n Q b)"
| "grp_inv n Q (Star r) = grp_inv n Q r"
| "grp_inv n Q (LazyStar r) = grp_inv n Q r"
| "grp_inv n Q (Grp k r) = ((k = n \<longrightarrow> consumes Q r) \<and> grp_inv n Q r)"
| "grp_inv n Q (Ahead r) = True"
| "grp_inv n Q (NotAhead r) = True"
| "grp_inv n Q Bol = True"
| "grp_inv n Q Eol = True"
| "grp_inv n Q WordB = True"

definition group_sat :: "nat \<Rightarrow> (string \<Rightarrow> bool) \<Rightarrow> mstate \<Rightarrow> bool" where
  "group_sat n Q st = (\<forall>w. map_of (groups st) n = Some w \<longrightarrow> Q w)"

lemma grp_inv_ok:
  "grp_inv n Q r \<Longrightarrow> st' \<in> set (rx_match r st) \<Longrightarrow> group_sat n Q st \<Longrightarrow> group_sat n Q st'"
proof (induction r arbitrary: st st')
  case (Cls p)
  then show ?case by (auto simp: group_sat_def split: prod.splits list.splits if_splits)
next
  case (Seq a b)
  then obtain mid where m: "mid \<in> set (rx_match a st)" "st' \<in> set (rx_match b mid)" by auto
  have g: "grp_inv n Q a" "grp_inv n Q b" using Seq.prems(1) by simp_all
  have "group_sat n Q mid" using Seq.IH(1)[OF g(1) m(1) Seq.prems(3)] .
  then show ?case using Seq.IH(2)[OF g(2) m(2)] by blast
next
  case (Alt a b)
  have g: "grp_inv n Q a" "grp_inv n Q b" using Alt.prems(1) by simp_all
  have "st' \<in> set (rx_match a st) \<or> st' \<in> set (rx_match b st)" using Alt.prems(2) by simp
  then show ?case using Alt.IH g Alt.prems(3) by blast
next
  case (Star r)
  have "st' \<in> set (star_iter (rx_match r) (length (remaining st)) st)" using Star.prems by simp
  then have "group_sat n Q st \<longrightarrow> group_sat n Q st'"
  proof (rule star_iter_rel[where R="\<lambda>a b. group_sat n Q a \<longrightarrow> group_sat n Q b", rotated -1])
    show "\<And>st st'. st' \<in> set (rx_match r st) \<Longrightarrow> group_sat n Q st \<longrightarrow> group_sat n Q st'"
      using Star.IH Star.prems(1) by simp
  qed blast+
  then show ?case using Star.prems by blast
next
  case (LazyStar r)
  have "st' \<in> set (lazy_iter (rx_match r) (length (remaining st)) st)" using LazyStar.prems by simp
  then have "group_sat n Q st \<longrightarrow> group_sat n Q st'"
  proof (rule lazy_iter_rel[where R="\<lambda>a b. group_sat n Q a \<longrightarrow> group_sat n Q b", rotated -1])
    show "\<And>st st'. st' \<in> set (rx_match r st) \<Longrightarrow> group_sat n Q st \<longrightarrow> group_sat n Q st'"
      using LazyStar.IH LazyStar.prems(1) by simp
  qed blast+
  then show ?case using LazyStar.prems by blast
next
  case (Grp k r)
  then obtain mid where m: "mid \<in> set (rx_match r st)" "st' = set_group k (remaining st) mid"
    by auto
  have "grp_inv n Q r" using Grp.prems(1) by simp
  then have mid: "group_sat n Q mid" using Grp.IH m(1) Grp.prems(3) by blast
  obtain w where w: "remaining st = w @ remaining mid" using rx_match_suffix[OF m(1)] by blast
  then have tk: "take (length (remaining st) - length (remaining mid)) (remaining st) = w"
    by simp
  show ?case
  proof (cases "k = n")
    case True
    then have "consumes Q r" using Grp.prems(1) by simp
    then have "Q w" unfolding consumes_def using m(1) w by blast
    then show ?thesis using m(2) True tk mid by (simp add: group_sat_def groups_set_group)
  next
    case False
    then show ?thesis using m(2) mid by (simp add: group_sat_def groups_set_group)
  qed
qed (auto split: prod.splits if_splits)

lemma search_from_Some:
  "search_from r pc s = Some m \<Longrightarrow>
     \<exists>pc' post st'. st' \<in> set (rx_match r (pc', post, [])) \<and> m = groups st'"
proof (induction s arbitrary: pc)
  case Nil
  then obtain st sts where "rx_match r (pc, [], []) = st # sts" "m = groups st"
    by (auto split: list.splits)
  then have "st \<in> set (rx_match r (pc, [], []))" by simp
  then show ?case using \<open>m = groups st\<close> by blast
next
  case (Cons c cs)
  show ?case
  proof (cases "rx_match r (pc, c # cs, [])")
    case Nil
    then show ?thesis using Cons by simp
  next
    case (Cons st sts)
    then have "m = groups st" using Cons.prems by simp
    moreover have "st \<in> set (rx_match r (pc, c # cs, []))" using Cons by simp
    ultimately show ?thesis by blast
  qed
qed

lemma re_search_group_set:
  assumes "sets_group n r" "re_search r s = Some m"
  shows "\<exists>w. group m n = Some w"
proof -
  obtain pc post st' where "st' \<in> set (rx_match r (pc, post, []))" "m = groups st'"
    using assms(2) search_from_Some unfolding re_search_def by blast
  then show ?thesis using sets_group_ok[OF assms(1)] by (auto simp: group_def)
qed

lemma re_search_group_sat:
  assumes "grp_inv n Q r" "re_search r s = Some m" "group m n = Some w"
  shows "Q w"
proof -
  obtain pc post st' where st: "st' \<in> set (rx_match r (pc, post, []))" "m = groups st'"
    using assms(2) search_from_Some unfolding re_search_def by blast
  have "group_sat n Q (pc, post, [])" by (simp add: group_sat_def)
  then have "group_sat n Q st'" using grp_inv_ok[OF assms(1) st(1)] by blast
  then show ?thesis using assms(3) st(2) by (simp add: group_sat_def group_def)
qed

lemma capture_total:
  assumes "sets_group 1 r"
  shows "\<exists>c. capture r text = Inr c"
proof (cases "re_search r text")
  case None
  then show ?thesis by (simp add: capture_def)
next
  case (Some m)
  then obtain w where "group m 1 = Some w" using re_search_group_set[OF assms] by blast
  then show ?thesis using Some by (simp add: capture_def)
qed

lemma capture_sat:
  assumes "grp_inv 1 Q r" "capture r text = Inr (Some w)"
  shows "Q w"
proof -
  obtain m where "re_search r text = Some m" "group m 1 = Some w"
    using assms(2) by (auto simp: capture_def split: option.splits)
  then show ?thesis using re_search_group_sat[OF assms(1)] by blast
qed

section \<open>The parsing helpers never raise\<close>

lemmas pattern_defs =
  POLICY_NUMBER_RX_def NAIC_POLICY_RX_def GENERIC_POLICY_RX_def INSURED_NAME_RX_def
  GENERIC_NAME_RX_def DATE_TIME_RX_def DATE_TOKEN_RX_def TIME_TOKEN_RX_def GENERIC_DATE_RX_def
  LOCATION_STREET_RX_def CITY_STATE_ZIP_RX_def COUNTRY_RX_def DESCRIPTION_ACCIDENT_RX_def
  GENERIC_DESCRIPTION_RX_def FINAL_DESCRIPTION_RX_def GENERIC_LOCATION_RX_def DRIVER_RX_def
  OWNER_RX_def PHONE_RX_def EMAIL_RX_def VIN_RX_def MAKE_RX_def MODEL_RX_def YEAR_RX_def
  ESTIMATE_AMOUNT_RX_def GENERIC_ESTIMATE_RX_def

lemma patterns_set_group:
  "sets_group 1 POLICY_NUMBER_RX" "sets_group 1 NAIC_POLICY_RX" "sets_group 1 GENERIC_POLICY_RX"
  "sets_group 1 INSURED_NAME_RX" "sets_group 1 GENERIC_NAME_RX" "sets_group 1 DATE_TIME_RX"
  "sets_group 1 DATE_TOKEN_RX" "sets_group 1 TIME_TOKEN_RX" "sets_group 1 GENERIC_DATE_RX"
  "sets_group 1 LOCATION_STREET_RX" "sets_group 1 CITY_STATE_ZIP_RX" "sets_group 1 COUNTRY_RX"
  "sets_group 1 DESCRIPTION_ACCIDENT_RX" "sets_group 1 GENERIC_DESCRIPTION_RX"
  "sets_group 1 FINAL_DESCRIPTION_RX" "sets_group 1 GENERIC_LOCATION_RX" "sets_group 1 DRIVER_RX"
  "sets_group 1 OWNER_RX" "sets_group 1 PHONE_RX" "sets_group 1 EMAIL_RX" "sets_group 1 VIN_RX"
  "sets_group 1 MAKE_RX" "sets_group 1 MODEL_RX" "sets_group 1 YEAR_RX"
  "sets_group 1 ESTIMATE_AMOUNT_RX" "sets_group 1 GENERIC_ESTIMATE_RX"
  by (simp_all add: pattern_defs)


lemma py_float_error: "py_float s = Inl e \<Longrightarrow> e = ValueError"
  by (auto simp: py_float_def Let_def split: if_splits)

lemma parse_float_total: "\<exists>r. parse_float s = Inr r"
proof (cases "py_float (filter (\<lambda>c. is_digit c \<or> c = CHR ''.'') (the s))")
  case (Inl e)
  then have "e = ValueError" by (rule py_float_error)
  then show ?thesis using Inl by (simp add: parse_float_def Let_def)
next
  case (Inr v)
  then show ?thesis by (simp add: parse_float_def Let_def)
qed

lemma py_int_error: "py_int s = Inl e \<Longrightarrow> e = ValueError"
  by (auto simp: py_int_def Let_def split: if_splits)

lemma make_date_error: "make_date y m d = Inl e \<Longrightarrow> e = ValueError"
  by (auto simp: make_date_def split: if_splits)

lemma ebind_Inl: "ebind x f = Inl e \<Longrightarrow> x = Inl e \<or> (\<exists>v. x = Inr v \<and> f v = Inl e)"
  by (cases x) (simp_all add: ebind_def)

lemma ebind_Inr: "x = Inr v \<Longrightarrow> ebind x f = f v"
  by (simp add: ebind_def)

lemma formats_set_groups:
  assumes "fmt \<in> set DATE_FORMATS"
  shows "sets_group 1 (format_rx fmt)" "sets_group 2 (format_rx fmt)" "sets_group 3 (format_rx fmt)"
  using assms by (auto simp: DATE_FORMATS_def format_rx_def)

lemma re_match_end_groups:
  assumes "sets_group n r" "re_match_end r s = Some (rest, g)"
  shows "\<exists>w. group g n = Some w"
proof -
  obtain st sts where "rx_match r (None, s, []) = st # sts" "g = groups st"
    using assms(2) by (auto simp: re_match_end_def split: list.splits)
  then have "st \<in> set (rx_match r (None, s, []))" by simp
  then show ?thesis using sets_group_ok[OF assms(1)] \<open>g = groups st\<close> by (auto simp: group_def)
qed

lemma strptime_error:
  assumes "fmt \<in> set DATE_FORMATS" "strptime s fmt = Inl e"
  shows "e = ValueError"
proof (cases "re_match_end (format_rx fmt) s")
  case None
  then show ?thesis using assms(2) by (simp add: strptime_def)
next
  case (Some a)
  obtain rest g where a: "a = (rest, g)" by (cases a)
  obtain w1 w2 w3 where w: "group g 1 = Some w1" "group g 2 = Some w2" "group g 3 = Some w3"
    using re_match_end_groups formats_set_groups[OF assms(1)] Some a by metis
  show ?thesis
  proof (cases "rest = []")
    case False
    then show ?thesis using assms(2) Some a by (simp add: strptime_def)
  next
    case True
    have gi: "group_item g 1 = Inr w1" "group_item g 2 = Inr w2" "group_item g 3 = Inr w3"
      using w by (simp_all add: group_item_def)
    have "ebind (group_item g 3) (\<lambda>ys. ebind (py_int ys) (\<lambda>y.
            ebind (group_item g 1) (\<lambda>ms. ebind (py_int ms) (\<lambda>m.
            ebind (group_item g 2) (\<lambda>ds. ebind (py_int ds) (\<lambda>d.
            make_date y m d)))))) = Inl e"
      using assms(2) Some a True by (simp add: strptime_def)
    then show ?thesis
      using gi by (auto dest!: ebind_Inl dest: py_int_error make_date_error)
  qed
qed

lemma try_formats_total:
  "set fmts \<subseteq> set DATE_FORMATS \<Longrightarrow> \<exists>r. try_formats fmts s = Inr r"
proof (induction fmts)
  case Nil
  then show ?case by simp
next
  case (Cons fmt fmts)
  show ?case
  proof (cases "strptime (take 10 s) fmt")
    case (Inl e)
    then have "e = ValueError" using strptime_error Cons.prems by auto
    then show ?thesis using Inl Cons by simp
  next
    case (Inr d)
    then show ?thesis by simp
  qed
qed

lemma parse_date_total: "\<exists>r. parse_date s = Inr r"
  using try_formats_total[of DATE_FORMATS] by (simp add: parse_date_def)

lemma strip_no_space: "list_all (\<lambda>c. \<not> is_space c) w \<Longrightarrow> strip w = w"
proof -
  assume a: "list_all (\<lambda>c. \<not> is_space c) w"
  have d: "dropWhile is_space v = v" if "list_all (\<lambda>c. \<not> is_space c) v" for v
    using that by (cases v) auto
  have "list_all (\<lambda>c. \<not> is_space c) (rev w)" using a by (simp add: list_all_iff)
  then show ?thesis using a by (simp add: strip_def d)
qed

lemma digit_not_space: "is_digit c \<Longrightarrow> \<not> is_space c"
  by (auto simp: is_digit_def is_space_def Let_def)

lemma py_int_digits:
  assumes "w \<noteq> []" "list_all is_digit w"
  shows "\<exists>y. py_int w = Inr y"
proof -
  have "strip w = w"
    using assms(2) digit_not_space by (intro strip_no_space) (auto simp: list_all_iff)
  moreover have "is_digit (hd w)" using assms by (cases w) auto
  then have "hd w \<noteq> CHR ''-''" "hd w \<noteq> CHR ''+''"
    by (auto simp: is_digit_def)
  ultimately show ?thesis using assms by (simp add: py_int_def Let_def)
qed

subsection \<open>What a pattern consumes\<close>

lemma consumes_mono: "consumes P r \<Longrightarrow> (\<And>w. P w \<Longrightarrow> Q w) \<Longrightarrow> consumes Q r"
  unfolding consumes_def by blast

lemma consumes_Cls: "consumes (\<lambda>w. \<exists>c. w = [c] \<and> p c) (Cls p)"
  unfolding consumes_def
  by (auto split: prod.splits list.splits if_splits)

lemma consumes_Eps: "consumes (\<lambda>w. w = []) Eps"
  unfolding consumes_def by auto

lemma consumes_Seq:
  assumes "consumes P a" "consumes Q b"
  shows "consumes (\<lambda>w. \<exists>u v. w = u @ v \<and> P u \<and> Q v) (Seq a b)"
  unfolding consumes_def
proof (intro allI impI)
  fix st st' w
  assume m: "st' \<in> set (rx_match (Seq a b) st)" and w: "remaining st = w @ remaining st'"
  obtain mid where mid: "mid \<in> set (rx_match a st)" "st' \<in> set (rx_match b mid)"
    using m by auto
  obtain u v where uv: "remaining st = u @ remaining mid" "remaining mid = v @ remaining st'"
    using rx_match_suffix mid by blast
  have "P u" "Q v" using assms mid uv unfolding consumes_def by blast+
  moreover have "w = u @ v" using w uv by simp
  ultimately show "\<exists>u v. w = u @ v \<and> P u \<and> Q v" by blast
qed

lemma consumes_Alt:
  assumes "consumes P a" "consumes P b"
  shows "consumes P (Alt a b)"
  unfolding consumes_def
proof (intro allI impI)
  fix st st' w
  assume m: "st' \<in> set (rx_match (Alt a b) st)" and w: "remaining st = w @ remaining st'"
  from m have "st' \<in> set (rx_match a st) \<or> st' \<in> set (rx_match b st)" by simp
  then show "P w" using assms w unfolding consumes_def by blast
qed

lemma consumes_any: "consumes (\<lambda>w. True) r"
  unfolding consumes_def by simp

lemma consumes_times: "consumes (\<lambda>w. length w = n \<and> list_all p w) (times n (Cls p))"
proof (induction n)
  case 0
  then show ?case using consumes_Eps by (auto intro: consumes_mono)
next
  case (Suc n)
  have "consumes (\<lambda>w. \<exists>u v. w = u @ v \<and> (\<exists>c. u = [c] \<and> p c) \<and> (length v = n \<and> list_all p v))
          (Seq (Cls p) (times n (Cls p)))"
    by (rule consumes_Seq[OF consumes_Cls Suc])
  then show ?case by (auto intro: consumes_mono)
qed

lemma grp_inv_times: "grp_inv n Q r \<Longrightarrow> grp_inv n Q (times k r)"
  by (induction k) simp_all

lemma grp_inv_upto_times: "grp_inv n Q r \<Longrightarrow> grp_inv n Q (upto_times k r)"
  by (induction k) (simp_all add: Opt_def)

lemma grp_inv_lit_ci: "grp_inv n Q (lit_ci w)"
  by (induction w) (simp_all add: lit_ci_def)

lemma grp_inv_lit: "grp_inv n Q (lit w)"
  by (induction w) (simp_all add: lit_def)

lemmas grp_inv_simps =
  grp_inv_times grp_inv_upto_times grp_inv_lit_ci grp_inv_lit between_times_def Plus_def
  LazyPlus_def Opt_def sp_def colon_sp_def not_nl_def nonspace_def dg_def nl_def apostrophe_def

lemma year_capture_digits:
  assumes "re_search YEAR_RX text = Some m" "group m 1 = Some w"
  shows "length w = 4 \<and> list_all is_digit w"
  by (rule re_search_group_sat[OF _ assms])
     (simp add: YEAR_RX_def grp_inv_simps consumes_times)

lemma consumes_conj: "consumes P r \<Longrightarrow> consumes Q r \<Longrightarrow> consumes (\<lambda>w. P w \<and> Q w) r"
  unfolding consumes_def by blast

lemma consumes_Grp:
  assumes "consumes P r"
  shows "consumes P (Grp n r)"
  unfolding consumes_def
proof (intro allI impI)
  fix st st' w
  assume m: "st' \<in> set (rx_match (Grp n r) st)" and w: "remaining st = w @ remaining st'"
  from m obtain mid where mid: "mid \<in> set (rx_match r st)" "st' = set_group n (remaining st) mid"
    by auto
  have "remaining st' = remaining mid" unfolding mid(2) by (rule remaining_set_group)
  then have "remaining st = w @ remaining mid" using w by simp
  then show "P w" using assms mid(1) unfolding consumes_def by blast
qed

lemma consumes_zero:
  "consumes (\<lambda>w. w = []) WordB" "consumes (\<lambda>w. w = []) Bol" "consumes (\<lambda>w. w = []) Eol"
  "consumes (\<lambda>w. w = []) (Ahead r)" "consumes (\<lambda>w. w = []) (NotAhead r)"
  unfolding consumes_def by (auto split: prod.splits if_splits)

lemma consumes_all_Cls: "(\<And>c. q c \<Longrightarrow> p c) \<Longrightarrow> consumes (list_all p) (Cls q)"
  by (rule consumes_mono[OF consumes_Cls]) auto

lemma consumes_all_Eps: "consumes (list_all p) Eps"
  by (rule consumes_mono[OF consumes_Eps]) auto

lemma consumes_all_zero:
  "consumes (list_all p) WordB" "consumes (list_all p) Bol" "consumes (list_all p) Eol"
  "consumes (list_all p) (Ahead r)" "consumes (list_all p) (NotAhead r)"
  by (rule consumes_mono[OF consumes_zero(1)], simp)
     (rule consumes_mono[OF consumes_zero(2)], simp,
      rule consumes_mono[OF consumes_zero(3)], simp,
      rule consumes_mono[OF consumes_zero(4)], simp,
      rule consumes_mono[OF consumes_zero(5)], simp)

lemma consumes_all_Seq:
  "consumes (list_all p) a \<Longrightarrow> consumes (list_all p) b \<Longrightarrow> consumes (list_all p) (Seq a b)"
  by (rule consumes_mono[OF consumes_Seq]) auto

lemma consumes_ne_Cls: "consumes (\<lambda>w. w \<noteq> []) (Cls p)"
  by (rule consumes_mono[OF consumes_Cls]) auto

lemma consumes_ne_Seq1: "consumes (\<lambda>w. w \<noteq> []) a \<Longrightarrow> consumes (\<lambda>w. w \<noteq> []) (Seq a b)"
  by (rule consumes_mono[OF consumes_Seq[OF _ consumes_any]]) auto

lemma consumes_ne_Seq2: "consumes (\<lambda>w. w \<noteq> []) b \<Longrightarrow> consumes (\<lambda>w. w \<noteq> []) (Seq a b)"
  by (rule consumes_mono[OF consumes_Seq[OF consumes_any]]) auto

definition starts :: "(char \<Rightarrow> bool) \<Rightarrow> string \<Rightarrow> bool" where
  "starts p w = (w \<noteq> [] \<and> p (hd w))"

lemma consumes_starts_Cls: "(\<And>c. q c \<Longrightarrow> p c) \<Longrightarrow> consumes (starts p) (Cls q)"
  by (rule consumes_mono[OF consumes_Cls]) (auto simp: starts_def)

lemma consumes_starts_Seq: "consumes (starts p) a \<Longrightarrow> consumes (starts p) (Seq a b)"
  by (rule consumes_mono[OF consumes_Seq[OF _ consumes_any]]) (auto simp: starts_def)

lemma consumes_has_Cls: "(\<And>x. q x \<Longrightarrow> x = c) \<Longrightarrow> consumes (\<lambda>w. c \<in> set w) (Cls q)"
  by (rule consumes_mono[OF consumes_Cls]) auto

lemma consumes_has_Seq1: "consumes (\<lambda>w. c \<in> set w) a \<Longrightarrow> consumes (\<lambda>w. c \<in> set w) (Seq a b)"
  by (rule consumes_mono[OF consumes_Seq[OF _ consumes_any]]) auto

lemma consumes_has_Seq2: "consumes (\<lambda>w. c \<in> set w) b \<Longrightarrow> consumes (\<lambda>w. c \<in> set w) (Seq a b)"
  by (rule consumes_mono[OF consumes_Seq[OF consumes_any]]) auto

lemma consumes_all_times: "consumes (list_all p) (times n (Cls p))"
  by (rule consumes_mono[OF consumes_times]) simp

lemma year_token_digits:
  assumes "re_search YEAR_TOKEN text = Some m" "group m 0 = Some w"
  shows "w \<noteq> [] \<and> list_all is_digit w"
proof (rule re_search_group_sat[OF _ assms])
  have d: "is_digit CHR ''1''" "is_digit CHR ''9''" "is_digit CHR ''2''" "is_digit CHR ''0''"
    by (simp_all add: is_digit_def)
  have 1: "consumes (list_all is_digit) (Alt (lit ''19'') (lit ''20''))"
    unfolding lit_def using d
    by (auto intro!: consumes_Alt consumes_all_Seq consumes_all_Cls consumes_all_Eps simp: ch_def)
  have 2: "consumes (list_all is_digit)
     (seqs [WordB, Grp 1 (Alt (lit ''19'') (lit ''20'')), times 2 (Cls is_digit), WordB])"
    using 1 by (auto intro!: consumes_all_Seq consumes_all_zero consumes_Grp consumes_all_times)
  have 3: "consumes (\<lambda>w. w \<noteq> [])
     (seqs [WordB, Grp 1 (Alt (lit ''19'') (lit ''20'')), times 2 (Cls is_digit), WordB])"
    apply (simp add: lit_def)
    apply (rule consumes_ne_Seq2, rule consumes_ne_Seq1, rule consumes_Grp, rule consumes_Alt)
     apply (rule consumes_ne_Seq1, rule consumes_ne_Cls)+
    done
  have c: "consumes (\<lambda>w. w \<noteq> [] \<and> list_all is_digit w)
     (seqs [WordB, Grp 1 (Alt (lit ''19'') (lit ''20'')), times 2 (Cls is_digit), WordB])"
    by (rule consumes_conj[OF 3 2])
  have "grp_inv 0 (\<lambda>w. w \<noteq> [] \<and> list_all is_digit w) (Grp 1 (Alt (lit ''19'') (lit ''20'')))"
    by (simp add: lit_def)
  moreover have "grp_inv 0 (\<lambda>w. w \<noteq> [] \<and> list_all is_digit w) (times 2 (Cls is_digit))"
    by (simp add: numeral_2_eq_2)
  ultimately show "grp_inv 0 (\<lambda>w. w \<noteq> [] \<and> list_all is_digit w) YEAR_TOKEN"
    using c by (simp add: YEAR_TOKEN_def)
qed

lemma parse_year_total: "\<exists>r. parse_year s = Inr r"
proof (cases "s = None \<or> the s = []")
  case True
  then show ?thesis by (auto simp: parse_year_def)
next
  case False
  show ?thesis
  proof (cases "re_search YEAR_TOKEN (the s)")
    case None
    then show ?thesis using False by (simp add: parse_year_def)
  next
    case (Some m)
    have "sets_group 0 YEAR_TOKEN" by (simp add: YEAR_TOKEN_def)
    then obtain w where w: "group m 0 = Some w" using re_search_group_set Some by blast
    then obtain y where "py_int w = Inr y"
      using year_token_digits[OF Some w] py_int_digits by blast
    then show ?thesis using False Some w by (simp add: parse_year_def ebind_def)
  qed
qed


section \<open>What the extractor stores\<close>

definition accepted :: "nat \<Rightarrow> string \<Rightarrow> bool" where
  \<comment> \<open>the value passed the label and placeholder filter at this bound\<close>
  "accepted bound v = (\<not> is_form_label_or_placeholder (Some v) bound)"

definition opt_all :: "('a \<Rightarrow> bool) \<Rightarrow> 'a option \<Rightarrow> bool" where
  \<comment> \<open>a property of the value of a field, when the field is populated\<close>
  "opt_all P x = (case x of None \<Rightarrow> True | Some v \<Rightarrow> P v)"

lemma opt_all_simps [simp]: "opt_all P None" "opt_all P (Some v) = P v"
  by (simp_all add: opt_all_def)

lemma opt_all_mono: "opt_all P x \<Longrightarrow> (\<And>v. P v \<Longrightarrow> Q v) \<Longrightarrow> opt_all Q x"
  by (cases x) simp_all

lemma accepted_nonempty: "accepted bound v \<Longrightarrow> v \<noteq> []"
  by (auto simp: accepted_def is_form_label_or_placeholder_def)

lemma strip_nonempty: "c \<in> set w \<Longrightarrow> \<not> is_space c \<Longrightarrow> strip w \<noteq> []"
  by (auto simp: strip_Nil_iff list_all_iff)

lemma accept_capture_spec:
  assumes g: "sets_group 1 p"
    and f: "opt_all P field"
    and w: "\<And>w. capture p text = Inr (Some w) \<Longrightarrow> accepted bound (trim w) \<Longrightarrow> P (trim w)"
  shows "\<exists>r. accept_capture p text trim bound field = Inr r \<and> opt_all P r"
proof -
  obtain c where c: "capture p text = Inr c" using capture_total[OF g] by blast
  show ?thesis
  proof (cases c)
    case None
    then show ?thesis using c f by (simp add: accept_capture_def ebind_def)
  next
    case (Some v)
    then show ?thesis
      using c f w[of v] by (simp add: accept_capture_def ebind_def Let_def accepted_def)
  qed
qed

lemma guarded_accept_spec:
  assumes g: "sets_group 1 p"
    and f: "opt_all P field"
    and w: "\<And>w. capture p text = Inr (Some w) \<Longrightarrow> accepted bound (trim w) \<Longrightarrow> P (trim w)"
  shows "\<exists>r. (if c then accept_capture p text trim bound field else Inr field) = Inr r \<and>
             opt_all P r"
  using accept_capture_spec[OF g f w] f by (cases c) auto

lemma policy_number_loop_spec:
  assumes "\<forall>p\<in>set ps. sets_group 1 p" "opt_all (accepted 50) pn"
  shows "\<exists>r. policy_number_loop ps text pn = Inr r \<and> opt_all (accepted 50) r"
  using assms
proof (induction ps arbitrary: pn)
  case Nil
  then show ?case by simp
next
  case (Cons p ps)
  have "sets_group 1 p" using Cons.prems(1) by simp
  then obtain r where r: "accept_capture p text strip 50 pn = Inr r" "opt_all (accepted 50) r"
    using accept_capture_spec[of p "accepted 50" pn "text" 50 strip] Cons.prems(2) by blast
  have "\<forall>p\<in>set ps. sets_group 1 p" using Cons.prems(1) by simp
  then show ?case using Cons.IH[OF _ r(2)] r(1) by (simp add: ebind_def)
qed

lemma extract_policy_number_spec:
  "\<exists>r. extract_policy_number text lower_text = Inr r \<and> opt_all (accepted 50) r"
proof -
  have "\<forall>p\<in>set [POLICY_NUMBER_RX, NAIC_POLICY_RX]. sets_group 1 p"
    using patterns_set_group(1,2) by simp
  moreover have "opt_all (accepted 50) None" by simp
  ultimately obtain pn where
    pn: "policy_number_loop [POLICY_NUMBER_RX, NAIC_POLICY_RX] text None = Inr pn"
    "opt_all (accepted 50) pn"
    using policy_number_loop_spec by blast
  obtain r where "(if falsy pn then accept_capture GENERIC_POLICY_RX lower_text strip 50 pn
                   else Inr pn) = Inr r" "opt_all (accepted 50) r"
    using guarded_accept_spec[OF patterns_set_group(3) pn(2), of lower_text 50 strip "falsy pn"]
    by blast
  then show ?thesis using pn(1) by (simp add: extract_policy_number_def ebind_def)
qed

lemma extract_policyholder_name_spec:
  "\<exists>r. extract_policyholder_name text lower_text = Inr r \<and>
       opt_all (accepted default_max_reasonable_len) r"
proof -
  let ?P = "accepted default_max_reasonable_len"
  obtain nm where nm: "accept_capture INSURED_NAME_RX text (\<lambda>w. take 200 (strip w))
       default_max_reasonable_len None = Inr nm" "opt_all ?P nm"
    using accept_capture_spec[OF patterns_set_group(4), of ?P None "text"
        default_max_reasonable_len "\<lambda>w. take 200 (strip w)"]
    by auto
  obtain r where "(if falsy nm then accept_capture GENERIC_NAME_RX lower_text
       (\<lambda>w. take 200 (strip w)) default_max_reasonable_len nm else Inr nm) = Inr r" "opt_all ?P r"
    using guarded_accept_spec[OF patterns_set_group(5) nm(2), of lower_text
        default_max_reasonable_len "\<lambda>w. take 200 (strip w)" "falsy nm"]
    by blast
  then show ?thesis using nm(1) by (simp add: extract_policyholder_name_def ebind_def)
qed

lemma extract_policy_spec:
  "\<exists>p. extract_policy text lower_text = Inr p \<and>
       opt_all (accepted 50) (policy_number p) \<and>
       opt_all (accepted default_max_reasonable_len) (policyholder_name p)"
proof -
  obtain pn where pn: "extract_policy_number text lower_text = Inr pn" "opt_all (accepted 50) pn"
    using extract_policy_number_spec by blast
  obtain nm where nm: "extract_policyholder_name text lower_text = Inr nm"
    "opt_all (accepted default_max_reasonable_len) nm"
    using extract_policyholder_name_spec by blast
  show ?thesis using pn nm by (simp add: extract_policy_def ebind_def)
qed


lemma time_token_starts:
  assumes "capture TIME_TOKEN_RX part = Inr (Some w)"
  shows "starts is_digit w"
proof (rule capture_sat[OF _ assms])
  have s: "consumes (starts is_digit) (Seq (between_times 1 2 dg) r)" for r
    unfolding between_times_def dg_def
    by (simp, intro consumes_starts_Seq consumes_starts_Cls)
  have "consumes (starts is_digit)
     (alts [
       seqs [between_times 1 2 dg, Star sp, Cls (ch CHR '':''), Star sp, times 2 dg, Star sp,
             Opt (Alt (lit_ci ''AM'') (lit_ci ''PM''))],
       seqs [between_times 1 2 dg, Star sp, lit_ci ''AM''],
       seqs [between_times 1 2 dg, Star sp, lit_ci ''PM'']])"
    by (simp only: alts.simps seqs.simps) (intro consumes_Alt s)
  then show "grp_inv 1 (starts is_digit) TIME_TOKEN_RX"
    by (simp add: TIME_TOKEN_RX_def grp_inv_simps)
qed

lemma email_has_at:
  assumes "capture EMAIL_RX text = Inr (Some w)"
  shows "CHR ''@'' \<in> set w"
proof (rule capture_sat[OF _ assms])
  have "consumes (\<lambda>w. CHR ''@'' \<in> set w)
     (seqs [Plus (Cls (\<lambda>c. \<not> is_space c \<and> c \<noteq> CHR ''@'')), Cls (ch CHR ''@''), Plus nonspace])"
    by (simp only: seqs.simps)
       (rule consumes_has_Seq2, rule consumes_has_Seq1, rule consumes_has_Cls, simp add: ch_def)
  then show "grp_inv 1 (\<lambda>w. CHR ''@'' \<in> set w) EMAIL_RX"
    by (simp add: EMAIL_RX_def grp_inv_simps)
qed

lemma space_case_fixed: "is_space c \<Longrightarrow> lower_char c = c \<and> upper_char c = c"
  by (auto simp: is_space_def lower_char_def upper_char_def is_upper_def is_lower_def Let_def)

lemma vin_char_not_space: "ci is_vin_char c \<Longrightarrow> \<not> is_space c"
proof
  assume a: "ci is_vin_char c" and s: "is_space c"
  then have "is_vin_char c" using space_case_fixed[OF s] by (simp add: ci_def)
  then show False
    using s by (auto simp: is_vin_char_def crange_def is_space_def is_digit_def Let_def)
qed

lemma vin_capture:
  assumes "re_search VIN_RX text = Some m" "group m 1 = Some w"
  shows "length w = 17 \<and> list_all (ci is_vin_char) w"
  by (rule re_search_group_sat[OF _ assms])
     (simp add: VIN_RX_def grp_inv_simps consumes_times)

lemma search_group_text:
  assumes "sets_group 1 p" "re_search p text = Some m"
  obtains w where "group m 1 = Some w" "group_text m = Inr w"
  using re_search_group_set[OF assms] by (auto simp: group_text_def)

lemma date_fallback_total:
  "\<exists>r. (if dt = None
         then (case re_search GENERIC_DATE_RX lower_text of
                 None \<Rightarrow> Inr dt
               | Some m \<Rightarrow> parse_date (group m 1))
         else Inr dt) = Inr r"
  using parse_date_total by (auto split: option.splits)

lemma date_time_line_spec:
  "\<exists>dt tm.
     ebind (case re_search DATE_TOKEN_RX part of
              None \<Rightarrow> Inr None
            | Some d \<Rightarrow> parse_date (group d 1)) (\<lambda>dt.
     ebind (capture TIME_TOKEN_RX part) (\<lambda>t. Inr (dt, map_option strip t))) = Inr (dt, tm) \<and>
     opt_all (\<lambda>v. v \<noteq> []) tm"
proof -
  have "\<exists>dt. (case re_search DATE_TOKEN_RX part of
              None \<Rightarrow> Inr None
            | Some d \<Rightarrow> parse_date (group d 1)) = Inr dt"
    by (cases "re_search DATE_TOKEN_RX part") (simp_all add: parse_date_total)
  then obtain dt where dt: "(case re_search DATE_TOKEN_RX part of
              None \<Rightarrow> Inr None
            | Some d \<Rightarrow> parse_date (group d 1)) = Inr dt"
    by blast
  obtain t where t: "capture TIME_TOKEN_RX part = Inr t"
    using capture_total[OF patterns_set_group(8)] by blast
  have "opt_all (\<lambda>v. v \<noteq> []) (map_option strip t)"
  proof (cases t)
    case (Some w)
    then have "starts is_digit w" using t time_token_starts by blast
    then have "hd w \<in> set w" "\<not> is_space (hd w)"
      using digit_not_space by (auto simp: starts_def)
    then show ?thesis using Some strip_nonempty by auto
  qed simp
  then show ?thesis using dt t by (simp add: ebind_def)
qed

lemma extract_date_time_spec:
  "\<exists>dt tm. extract_date_time text lower_text = Inr (dt, tm) \<and> opt_all (\<lambda>v. v \<noteq> []) tm"
proof -
  obtain m where m: "capture DATE_TIME_RX text = Inr m"
    using capture_total[OF patterns_set_group(6)] by blast
  obtain dt tm where line: "(case m of
              None \<Rightarrow> Inr (None, None)
            | Some part \<Rightarrow>
                ebind (case re_search DATE_TOKEN_RX part of
                         None \<Rightarrow> Inr None
                       | Some d \<Rightarrow> parse_date (group d 1)) (\<lambda>dt.
                ebind (capture TIME_TOKEN_RX part) (\<lambda>t.
                  Inr (dt, map_option strip t)))) = Inr (dt, tm)" "opt_all (\<lambda>v. v \<noteq> []) tm"
  proof (cases m)
    case None
    then show ?thesis using that[of None None] by simp
  next
    case (Some part)
    then show ?thesis using that date_time_line_spec[of part] by auto
  qed
  obtain r where "(if dt = None
         then (case re_search GENERIC_DATE_RX lower_text of
                 None \<Rightarrow> Inr dt
               | Some m \<Rightarrow> parse_date (group m 1))
         else Inr dt) = Inr r"
    using date_fallback_total by blast
  then show ?thesis
    using m line by (simp add: extract_date_time_def ebind_def)
qed

definition captured :: "rx \<Rightarrow> string \<Rightarrow> string list" where
  \<comment> \<open>what the pattern captures in the text, if it matches\<close>
  "captured p t = (case capture p t of Inr (Some w) \<Rightarrow> [w] | _ \<Rightarrow> [])"

definition description_captures :: "string \<Rightarrow> string list" where
  \<comment> \<open>the source descriptions: what the three description patterns capture\<close>
  "description_captures text =
     captured DESCRIPTION_ACCIDENT_RX text @ captured GENERIC_DESCRIPTION_RX (lower text) @
     captured FINAL_DESCRIPTION_RX text"

definition from_source :: "string \<Rightarrow> string \<Rightarrow> bool" where
  \<comment> \<open>the stored description is a source description, trimmed and cut at 2000 characters\<close>
  "from_source text v = (\<exists>c. c \<in> set (description_captures text) \<and> v = take 2000 (strip c))"

lemma captured_mem: "capture p t = Inr (Some w) \<Longrightarrow> w \<in> set (captured p t)"
  by (simp add: captured_def)

lemma extract_description_spec:
  "\<exists>d. extract_description text (lower text) = Inr d \<and>
       opt_all (\<lambda>v. accepted 2000 v \<and> from_source text v) d"
proof -
  let ?P = "\<lambda>v. accepted 2000 v \<and> from_source text v"
  let ?trim = "\<lambda>w. take 2000 (strip w)"
  have src: "?P (?trim w)"
    if "capture p t = Inr (Some w)" "accepted 2000 (?trim w)"
      "set (captured p t) \<subseteq> set (description_captures text)" for p t w
    using that captured_mem[OF that(1)] unfolding from_source_def by blast
  obtain d1 where d1: "accept_capture DESCRIPTION_ACCIDENT_RX text ?trim 2000 None = Inr d1"
    "opt_all ?P d1"
    using accept_capture_spec[OF patterns_set_group(13), of ?P None "text" 2000 ?trim] src
    by (auto simp: description_captures_def)
  obtain d2 where d2: "(if falsy d1
       then accept_capture GENERIC_DESCRIPTION_RX (lower text) ?trim 2000 d1 else Inr d1) = Inr d2"
    "opt_all ?P d2"
    using guarded_accept_spec[OF patterns_set_group(14) d1(2), of "lower text" 2000 ?trim "falsy d1"]
      src
    by (auto simp: description_captures_def)
  obtain d3 where d3: "(if falsy d2
       then accept_capture FINAL_DESCRIPTION_RX text ?trim 2000 d2 else Inr d2) = Inr d3"
    "opt_all ?P d3"
    using guarded_accept_spec[OF patterns_set_group(15) d2(2), of "text" 2000 ?trim "falsy d2"]
      src
    by (auto simp: description_captures_def)
  show ?thesis
    using d1(1) d2(1) d3 by (simp add: extract_description_def ebind_def)
qed


definition incident_ok :: "string \<Rightarrow> IncidentInfo \<Rightarrow> bool" where
  "incident_ok text i =
     (opt_all (\<lambda>v. v \<noteq> []) (time i) \<and>
      opt_all (accepted default_max_reasonable_len) (location_street i) \<and>
      opt_all (accepted 100) (location_city_state_zip i) \<and>
      opt_all (accepted 80) (location_country i) \<and>
      opt_all (\<lambda>v. accepted 2000 v \<and> from_source text v) (description i))"

lemma extract_incident_spec:
  "\<exists>i. extract_incident text (lower text) = Inr i \<and> incident_ok text i"
proof -
  let ?d = default_max_reasonable_len
  obtain dt tm where dt: "extract_date_time text (lower text) = Inr (dt, tm)"
    "opt_all (\<lambda>v. v \<noteq> []) tm"
    using extract_date_time_spec by blast
  obtain street where street: "accept_capture LOCATION_STREET_RX text (\<lambda>w. take 300 (strip w))
       ?d None = Inr street" "opt_all (accepted ?d) street"
    using accept_capture_spec[OF patterns_set_group(10), of "accepted ?d" None "text" ?d
        "\<lambda>w. take 300 (strip w)"]
    by auto
  obtain csz where csz: "accept_capture CITY_STATE_ZIP_RX text strip 100 None = Inr csz"
    "opt_all (accepted 100) csz"
    using accept_capture_spec[OF patterns_set_group(11), of "accepted 100" None "text" 100 strip]
    by auto
  obtain country where country: "accept_capture COUNTRY_RX text strip 80 None = Inr country"
    "opt_all (accepted 80) country"
    using accept_capture_spec[OF patterns_set_group(12), of "accepted 80" None "text" 80 strip]
    by auto
  obtain desc where desc: "extract_description text (lower text) = Inr desc"
    "opt_all (\<lambda>v. accepted 2000 v \<and> from_source text v) desc"
    using extract_description_spec by blast
  obtain street' where street': "(if falsy street \<and> falsy csz
       then accept_capture GENERIC_LOCATION_RX text (\<lambda>w. take 300 (strip w)) ?d street
       else Inr street) = Inr street'" "opt_all (accepted ?d) street'"
    using guarded_accept_spec[OF patterns_set_group(16) street(2), of "text" ?d
        "\<lambda>w. take 300 (strip w)" "falsy street \<and> falsy csz"]
    by auto
  show ?thesis
    using dt street(1) csz country desc street'
    by (simp add: extract_incident_def ebind_def incident_ok_def)
qed

definition party_ok :: "InvolvedParty \<Rightarrow> bool" where
  "party_ok c =
     (opt_all (accepted default_max_reasonable_len) (name c) \<and>
      opt_all (accepted 30) (phone c) \<and>
      opt_all (\<lambda>v. v \<noteq> []) (email c) \<and>
      address c = None \<and> relation_to_insured c = None)"

lemma party_named_ok: "accepted default_max_reasonable_len v \<Longrightarrow> party_ok (party_named v)"
  by (simp add: party_ok_def party_named_def)

lemma contact_spec:
  assumes "party_ok c"
  shows "\<exists>r. ebind (accept_capture PHONE_RX text (\<lambda>w. take 50 (strip w)) 30 (phone c)) (\<lambda>ph.
           ebind (capture EMAIL_RX text) (\<lambda>m.
             Inr (Some (c \<lparr> phone := ph,
                            email := (case m of None \<Rightarrow> email c | Some w \<Rightarrow> Some (strip w)) \<rparr>))))
         = Inr r \<and> opt_all party_ok r"
proof -
  obtain ph where ph: "accept_capture PHONE_RX text (\<lambda>w. take 50 (strip w)) 30 (phone c) = Inr ph"
    "opt_all (accepted 30) ph"
    using accept_capture_spec[OF patterns_set_group(19), of "accepted 30" "phone c" "text" 30
        "\<lambda>w. take 50 (strip w)"] assms
    by (auto simp: party_ok_def)
  obtain m where m: "capture EMAIL_RX text = Inr m"
    using capture_total[OF patterns_set_group(20)] by blast
  have "opt_all (\<lambda>v. v \<noteq> []) (case m of None \<Rightarrow> email c | Some w \<Rightarrow> Some (strip w))"
  proof (cases m)
    case None
    then show ?thesis using assms by (simp add: party_ok_def)
  next
    case (Some w)
    then have "CHR ''@'' \<in> set w" using m email_has_at by blast
    moreover have "\<not> is_space CHR ''@''" by (simp add: is_space_def)
    ultimately show ?thesis using Some strip_nonempty by auto
  qed
  then show ?thesis using ph m assms by (simp add: ebind_def party_ok_def)
qed

lemma extract_claimant_spec:
  assumes "opt_all (accepted default_max_reasonable_len) policyholder"
  shows "\<exists>c. extract_claimant text policyholder = Inr c \<and> opt_all party_ok c"
proof -
  let ?d = default_max_reasonable_len
  obtain driver where driver: "accept_capture DRIVER_RX text strip ?d None = Inr driver"
    "opt_all (accepted ?d) driver"
    using accept_capture_spec[OF patterns_set_group(17), of "accepted ?d" None "text" ?d strip]
    by auto
  obtain nm where nm: "(if driver = None
       then accept_capture OWNER_RX text strip ?d None else Inr driver) = Inr nm"
    "opt_all (accepted ?d) nm"
  proof (cases "driver = None")
    case True
    then show ?thesis
      using that accept_capture_spec[OF patterns_set_group(18), of "accepted ?d" None "text" ?d strip]
      by auto
  next
    case False
    then show ?thesis using that driver(2) by auto
  qed
  define claimant where "claimant = (case nm of
                         Some val \<Rightarrow> Some (party_named val)
                       | None \<Rightarrow> if \<not> falsy policyholder
                                 then Some (party_named (the policyholder)) else None)"
  have ok: "opt_all party_ok claimant"
  proof (cases nm)
    case None
    then show ?thesis
      using assms by (cases policyholder) (auto simp: claimant_def falsy_def party_named_ok)
  next
    case (Some val)
    then show ?thesis using nm(2) by (simp add: claimant_def party_named_ok)
  qed
  have "\<exists>r. (case claimant of
         None \<Rightarrow> Inr None
       | Some c \<Rightarrow>
           ebind (accept_capture PHONE_RX text (\<lambda>w. take 50 (strip w)) 30 (phone c)) (\<lambda>ph.
           ebind (capture EMAIL_RX text) (\<lambda>m.
             Inr (Some (c \<lparr> phone := ph,
                            email := (case m of None \<Rightarrow> email c | Some w \<Rightarrow> Some (strip w)) \<rparr>)))))
        = Inr r \<and> opt_all party_ok r"
  proof (cases claimant)
    case None
    then show ?thesis by simp
  next
    case (Some c)
    then show ?thesis using contact_spec[of c "text"] ok by simp
  qed
  then show ?thesis
    using driver(1) nm(1)
    by (simp add: extract_claimant_def ebind_def Let_def claimant_def[symmetric])
qed


definition asset_ok :: "AssetDetails \<Rightarrow> bool" where
  "asset_ok a =
     (asset_type a = Some ''vehicle'' \<and>
      opt_all (\<lambda>v. v \<noteq> []) (asset_id a) \<and>
      opt_all (\<lambda>v. v = [] \<or> accepted 50 v) (make_field a) \<and>
      opt_all (\<lambda>v. v = [] \<or> accepted 50 v) (model a) \<and>
      AssetDetails.initial_estimate a = estimated_damage a)"

lemma stripped_group_total:
  assumes "sets_group 1 p"
  shows "\<exists>v. stripped_group (re_search p text) = Inr v"
proof (cases "re_search p text")
  case None
  then show ?thesis by (simp add: stripped_group_def)
next
  case (Some m)
  then obtain w where "group_text m = Inr w" using search_group_text[OF assms] by blast
  then show ?thesis using Some by (simp add: stripped_group_def ebind_def)
qed

lemma vin_value_nonempty:
  assumes "stripped_group (re_search VIN_RX text) = Inr (Some v)"
  shows "v \<noteq> []"
proof -
  obtain m where m: "re_search VIN_RX text = Some m"
    using assms by (cases "re_search VIN_RX text") (simp_all add: stripped_group_def)
  obtain w where w: "group m 1 = Some w" "group_text m = Inr w"
    using search_group_text[OF patterns_set_group(21) m] by blast
  have v: "v = strip w" using assms m w by (simp add: stripped_group_def ebind_def)
  have l: "length w = 17" "list_all (ci is_vin_char) w" using vin_capture[OF m w(1)] by simp_all
  then obtain x xs where x: "w = x # xs" by (cases w) auto
  then have "x \<in> set w" "\<not> is_space x"
    using l(2) vin_char_not_space by auto
  then have "strip w \<noteq> []" by (rule strip_nonempty)
  then show ?thesis by (simp add: v)
qed

lemma int_group_year_total: "\<exists>y. int_group (re_search YEAR_RX text) = Inr y"
proof (cases "re_search YEAR_RX text")
  case None
  then show ?thesis by (simp add: int_group_def)
next
  case (Some m)
  obtain w where w: "group m 1 = Some w"
    using search_group_text[OF patterns_set_group(24) Some] by blast
  then have "w \<noteq> []" "list_all is_digit w" using year_capture_digits[OF Some w] by auto
  then obtain y where "py_int w = Inr y" using py_int_digits by blast
  then show ?thesis using Some w by (simp add: int_group_def ebind_def)
qed

lemma float_group_total: "\<exists>f. float_group m = Inr f"
  using parse_float_total by (cases m) (simp_all add: float_group_def)

lemma filtered_value_ok: "opt_all (\<lambda>v. v = [] \<or> accepted 50 v) (filtered_value x)"
  by (cases x) (auto simp: filtered_value_def falsy_def accepted_def)

lemma extract_asset_spec: "\<exists>a. extract_asset text = Inr a \<and> opt_all asset_ok a"
proof -
  define est where "est = (if re_search ESTIMATE_AMOUNT_RX text = None
      then re_search GENERIC_ESTIMATE_RX text else re_search ESTIMATE_AMOUNT_RX text)"
  obtain make_val where mk: "stripped_group (re_search MAKE_RX text) = Inr make_val"
    using stripped_group_total[OF patterns_set_group(22)] by blast
  obtain model_val where md: "stripped_group (re_search MODEL_RX text) = Inr model_val"
    using stripped_group_total[OF patterns_set_group(23)] by blast
  obtain vin_val where vn: "stripped_group (re_search VIN_RX text) = Inr vin_val"
    using stripped_group_total[OF patterns_set_group(21)] by blast
  obtain year_val where yr: "int_group (re_search YEAR_RX text) = Inr year_val"
    using int_group_year_total by blast
  obtain damage where dm: "float_group est = Inr damage"
    using float_group_total by blast
  have vin_ok: "opt_all (\<lambda>v. v \<noteq> []) vin_val"
    using vin_value_nonempty vn by (cases vin_val) auto
  show ?thesis
    using mk md vn yr dm vin_ok filtered_value_ok[of make_val] filtered_value_ok[of model_val]
    by (simp add: extract_asset_def Let_def est_def[symmetric] ebind_def asset_ok_def)
qed

definition record_ok :: "string \<Rightarrow> ExtractedFields \<Rightarrow> bool" where
  "record_ok text r =
     (opt_all (accepted 50) (policy_number (policy r)) \<and>
      opt_all (accepted default_max_reasonable_len) (policyholder_name (policy r)) \<and>
      effective_date_start (policy r) = None \<and> effective_date_end (policy r) = None \<and>
      incident_ok text (incident r) \<and>
      opt_all party_ok (claimant r) \<and>
      third_parties r = [] \<and>
      contact_details r = claimant r \<and>
      opt_all asset_ok (asset r) \<and>
      claim_type r = Some (infer_claim_type (description (incident r)) (lower text) (upper text)) \<and>
      attachments r = (if py_in ''attachment'' (lower text) \<or> py_in ''attached'' (lower text)
                       then [''document_attached''] else []) \<and>
      ExtractedFields.initial_estimate r =
        (case asset r of None \<Rightarrow> None | Some a \<Rightarrow> AssetDetails.initial_estimate a))"

lemma extract_from_raw_text_spec:
  "\<exists>r. extract_from_raw_text text = Inr r \<and> record_ok text r"
proof -
  obtain p where p: "extract_policy text (lower text) = Inr p"
    "opt_all (accepted 50) (policy_number p)"
    "opt_all (accepted default_max_reasonable_len) (policyholder_name p)"
    using extract_policy_spec by blast
  have pd: "effective_date_start p = None" "effective_date_end p = None"
    using p(1) by (auto simp: extract_policy_def ebind_def split: sum.splits)
  obtain i where i: "extract_incident text (lower text) = Inr i" "incident_ok text i"
    using extract_incident_spec by blast
  obtain c where c: "extract_claimant text (policyholder_name p) = Inr c" "opt_all party_ok c"
    using extract_claimant_spec[OF p(3)] by blast
  obtain a where a: "extract_asset text = Inr a" "opt_all asset_ok a"
    using extract_asset_spec by blast
  show ?thesis
    using p pd i c a
    by (simp add: extract_from_raw_text_def Let_def ebind_def record_ok_def)
qed

section \<open>Evaluating the patterns on a text\<close>

lemma lit_Nil: "lit [] = Eps"
  by (simp add: lit_def)

lemma lit_Cons: "lit (c # w) = Seq (Cls (ch c)) (lit w)"
  by (simp add: lit_def)

lemma rx_match_lit_any:
  "rx_match (lit w) (pc, s, g) =
     (if length w \<le> length s \<and> take (length w) s = w
      then [(after pc (take (length w) s), drop (length w) s, g)] else [])"
proof (induction w arbitrary: pc s)
  case Nil
  then show ?case by (simp add: lit_Nil after_def)
next
  case (Cons c w)
  show ?case
  proof (cases s)
    case Nil
    then show ?thesis by (simp add: lit_Cons)
  next
    case (Cons x xs)
    show ?thesis
      using Cons.IH[of "Some x" xs]
      by (auto simp: lit_Cons Cons ch_def after_def)
  qed
qed

lemma times_numeral: "times (numeral n) r = Seq r (times (pred_numeral n) r)"
  by (simp add: numeral_eq_Suc)

lemma upto_times_numeral:
  "upto_times (numeral n) r = Opt (Seq r (upto_times (pred_numeral n) r))"
  by (simp add: numeral_eq_Suc)

lemmas class_defs = sp_def colon_sp_def not_nl_def nonspace_def dg_def nl_def apostrophe_def
  alnum_dash_def is_vin_char_def crange_def ch_def ci_def is_punct_def newline_def

lemmas rx_eval = re_search_def re_match_def capture_def group_def rx_match_lit_ci_any
  rx_match_lit_any Plus_def LazyPlus_def Opt_def between_times_def times_numeral
  upto_times_numeral after_def strip_def class_defs char_eval

lemmas classifier_eval = is_form_label_or_placeholder_def LABEL_PATTERNS_def
  LABEL_SUBSTRINGS_def PUNCT_ONLY_def default_max_reasonable_len_def

section \<open>The policy number cascade\<close>

definition policy_text :: string where
  \<comment> \<open>a form with a policy number line and, below it, a carrier line with another number\<close>
  "policy_text = ''POLICY NUMBER: P-1'' @ [newline] @ ''NAIC CODE: 1 CARRIER: X POLICY NUMBER: Q-2''"

lemma policy_text_captures:
  "capture POLICY_NUMBER_RX policy_text = Inr (Some ''P-1'')"
  "capture NAIC_POLICY_RX policy_text = Inr (Some ''Q-2'')"
  by (simp_all add: policy_text_def POLICY_NUMBER_RX_def NAIC_POLICY_RX_def rx_eval)

lemma policy_values_accepted:
  "\<not> is_form_label_or_placeholder (Some ''P-1'') 50"
  "\<not> is_form_label_or_placeholder (Some ''Q-2'') 50"
  by (simp_all add: classifier_eval rx_eval)

lemma policy_text_number:
  "extract_policy_number policy_text (lower policy_text) = Inr (Some ''Q-2'')"
proof -
  have s: "strip ''P-1'' = ''P-1''" "strip ''Q-2'' = ''Q-2''"
    by (simp_all add: strip_def is_space_def)
  show ?thesis
    unfolding extract_policy_number_def policy_number_loop.simps accept_capture_def
      policy_text_captures
    using policy_values_accepted
    by (simp add: ebind_def s falsy_def)
qed

section \<open>The claim type of an extracted record\<close>

lemma claim_type_listed:
  "''claim_type'' \<in> set (get_missing_mandatory_fields e) \<longleftrightarrow> absent_or_blank (claim_type e)"
  by (simp add: missing_as_filter MANDATORY_FIELDS_def field_absent_simps)

lemma infer_claim_type_values:
  "infer_claim_type d l u = ''injury'' \<or> infer_claim_type d l u = ''auto'' \<or>
   infer_claim_type d l u = ''property''"
  by (simp add: infer_claim_type_def Let_def)

lemma claim_types_not_blank:
  "\<not> absent_or_blank (Some ''injury'')" "\<not> absent_or_blank (Some ''auto'')"
  "\<not> absent_or_blank (Some ''property'')"
  by (simp_all add: absent_or_blank_def is_space_def)

lemma ascii_Nil: "ascii []"
  by (simp add: ascii_def)

text \<open>
  Claim C10. For every ASCII text, the empty and the whitespace-only text included, the
  extractor returns a record whose claim type is "injury", "auto" or "property", never
  absent, and "claim_type" is not in the list that \<open>get_missing_mandatory_fields\<close>
  computes from that record.
\<close>

theorem claim_type_always_set:
  assumes "ascii text"
  shows "\<exists>r. extract_from_text text = Inr r \<and>
           (claim_type r = Some ''injury'' \<or> claim_type r = Some ''auto'' \<or>
            claim_type r = Some ''property'') \<and>
           ''claim_type'' \<notin> set (get_missing_mandatory_fields r)"
proof -
  obtain r where r: "extract_from_raw_text text = Inr r" "record_ok text r"
    using extract_from_raw_text_spec by blast
  have c: "claim_type r = Some (infer_claim_type (description (incident r)) (lower text) (upper text))"
    using r(2) by (simp add: record_ok_def)
  then have v: "claim_type r = Some ''injury'' \<or> claim_type r = Some ''auto'' \<or>
            claim_type r = Some ''property''"
    using infer_claim_type_values by simp
  then have "\<not> absent_or_blank (claim_type r)"
    using claim_types_not_blank by auto
  then show ?thesis
    using r(1) v by (simp add: extract_from_text_def claim_type_listed)
qed

theorem claim_type_always_set_witness:
  "ascii [] \<and>
   (\<exists>r. extract_from_text [] = Inr r \<and>
      (claim_type r = Some ''injury'' \<or> claim_type r = Some ''auto'' \<or>
       claim_type r = Some ''property'') \<and>
      ''claim_type'' \<notin> set (get_missing_mandatory_fields r)) \<and>
   ascii ''  '' \<and>
   (\<exists>r. extract_from_text ''  '' = Inr r \<and>
      (claim_type r = Some ''injury'' \<or> claim_type r = Some ''auto'' \<or>
       claim_type r = Some ''property'') \<and>
      ''claim_type'' \<notin> set (get_missing_mandatory_fields r))"
proof -
  have a: "ascii []" "ascii ''  ''" by (simp_all add: ascii_def)
  show ?thesis
    using claim_type_always_set[OF a(1)] claim_type_always_set[OF a(2)] a by simp
qed

section \<open>The parts of an extracted record\<close>

lemma ebind_Inr_iff: "ebind x f = Inr r \<longleftrightarrow> (\<exists>v. x = Inr v \<and> f v = Inr r)"
  by (cases x) (simp_all add: ebind_def)

lemma extract_from_raw_text_parts:
  assumes "extract_from_raw_text text = Inr r"
  shows "extract_policy text (lower text) = Inr (policy r)"
    and "extract_incident text (lower text) = Inr (incident r)"
    and "extract_claimant text (policyholder_name (policy r)) = Inr (claimant r)"
    and "extract_asset text = Inr (asset r)"
  using assms
  by (auto simp: extract_from_raw_text_def Let_def ebind_Inr_iff)

lemma extract_policy_parts:
  assumes "extract_policy text lt = Inr p"
  shows "extract_policy_number text lt = Inr (policy_number p)"
    and "extract_policyholder_name text lt = Inr (policyholder_name p)"
  using assms by (auto simp: extract_policy_def ebind_Inr_iff)

lemma extract_incident_parts:
  assumes "extract_incident text lt = Inr i"
  shows "extract_description text lt = Inr (description i)"
  using assms by (auto simp: extract_incident_def ebind_Inr_iff split: prod.splits)

lemma extracted_policy_number:
  assumes "extract_policy_number text (lower text) = Inr pn"
  shows "\<exists>r. extract_from_text text = Inr r \<and> policy_number (policy r) = pn"
proof -
  obtain r where r: "extract_from_raw_text text = Inr r"
    using extract_from_raw_text_spec by blast
  then have "extract_policy_number text (lower text) = Inr (policy_number (policy r))"
    using extract_from_raw_text_parts(1) extract_policy_parts(1) by blast
  then show ?thesis using assms r by (simp add: extract_from_text_def)
qed

lemma extracted_description:
  assumes "extract_description text (lower text) = Inr d"
  shows "\<exists>r. extract_from_text text = Inr r \<and> description (incident r) = d"
proof -
  obtain r where r: "extract_from_raw_text text = Inr r"
    using extract_from_raw_text_spec by blast
  then have "extract_description text (lower text) = Inr (description (incident r))"
    using extract_from_raw_text_parts(2) extract_incident_parts by blast
  then show ?thesis using assms r by (simp add: extract_from_text_def)
qed

text \<open>
  Claim C7. On a text with the line "POLICY NUMBER: P-1" and, below it, the line
  "NAIC CODE: 1 CARRIER: X POLICY NUMBER: Q-2", the form-specific pattern captures "P-1",
  which passes the classifier, and the extractor stores "Q-2", the capture of the combined
  pattern: the loop over the two patterns tries the second after the first has given an
  accepted value, and the second replaces it.
\<close>

theorem policy_number_replaced:
  "capture POLICY_NUMBER_RX policy_text = Inr (Some ''P-1'') \<and>
   \<not> is_form_label_or_placeholder (Some (strip ''P-1'')) 50 \<and>
   capture NAIC_POLICY_RX policy_text = Inr (Some ''Q-2'') \<and>
   extract_policy_number policy_text (lower policy_text) = Inr (Some ''Q-2'') \<and>
   (\<exists>r. extract_from_text policy_text = Inr r \<and> policy_number (policy r) = Some ''Q-2'')"
proof -
  have "strip ''P-1'' = ''P-1''" by (simp add: strip_def is_space_def)
  then show ?thesis
    using policy_text_captures policy_values_accepted(1) policy_text_number
      extracted_policy_number[OF policy_text_number]
    by simp
qed

lemmas extractor_defs = extract_from_text_def extract_from_raw_text_def extract_policy_def
  extract_policy_number_def policy_number_loop.simps extract_policyholder_name_def
  extract_incident_def extract_date_time_def extract_description_def extract_claimant_def
  extract_asset_def accept_capture_def infer_claim_type_def filtered_value_def
  stripped_group_def int_group_def float_group_def group_text_def falsy_def party_named_def
  ebind_def or_empty_def Let_def

definition empty_record :: ExtractedFields where
  \<comment> \<open>the record with every field absent and the claim type "property"\<close>
  "empty_record =
     \<lparr> policy = \<lparr> policy_number = None, policyholder_name = None,
                   effective_date_start = None, effective_date_end = None \<rparr>,
       incident = \<lparr> date = None, time = None, location_street = None,
                     location_city_state_zip = None, location_country = None,
                     description = None \<rparr>,
       claimant = None, third_parties = [], contact_details = None, asset = None,
       claim_type = Some ''property'', attachments = [],
       ExtractedFields.initial_estimate = None \<rparr>"

lemma extract_empty: "extract_from_text [] = Inr empty_record"
  by (simp add: extractor_defs pattern_defs rx_eval empty_record_def)

lemma extract_blank: "extract_from_text ''  '' = Inr empty_record"
  by (simp add: extractor_defs pattern_defs rx_eval empty_record_def)

lemma ebind_simps: "ebind (Inr v) f = f v" "ebind (Inl e) f = Inl e"
  by (simp_all add: ebind_def)

lemmas parse_defs = ebind_simps parse_float_def py_float_def to_float_def parse_date_def strptime_def
  re_match_end_def format_rx_def DATE_FORMATS_def make_date_def days_in_month_def leap_year_def
  py_int_def decimal_def digit_value_def group_item_def parse_year_def YEAR_TOKEN_def

lemma pf1: "parse_float (Some ''1.2.3'') = Inr None"
  by (simp add: parse_defs rx_eval)

lemma pf2: "parse_float (Some ''$8,500'') = Inr (Some (Finite 8500))"
  by (simp add: parse_defs rx_eval)

lemma pd1: "parse_date (Some ''02/30/2024'') = Inr None"
  by (simp add: parse_defs rx_eval)

lemma pd2: "parse_date (Some ''01/20/2024'') = Inr (Some (Date 2024 1 20))"
  by (simp add: parse_defs rx_eval)

lemma py1: "parse_year (Some ''built 2021 or so'') = Inr (Some 2021)"
  by (simp add: parse_defs rx_eval)

section \<open>The extractor and its parsing helpers never raise\<close>

lemma parse_float_unparseable:
  assumes "py_float (filter (\<lambda>c. is_digit c \<or> c = CHR ''.'') s) = Inl e"
  shows "parse_float (Some s) = Inr None"
proof -
  have "e = ValueError" using assms by (rule py_float_error)
  then show ?thesis using assms by (simp add: parse_float_def Let_def)
qed

lemma try_formats_unparseable:
  assumes "set fmts \<subseteq> set DATE_FORMATS"
    and "\<forall>fmt\<in>set fmts. \<exists>e. strptime (take 10 s) fmt = Inl e"
  shows "try_formats fmts s = Inr None"
  using assms
proof (induction fmts)
  case Nil
  then show ?case by simp
next
  case (Cons fmt fmts)
  obtain e where e: "strptime (take 10 s) fmt = Inl e" using Cons.prems(2) by auto
  have "fmt \<in> set DATE_FORMATS" using Cons.prems(1) by simp
  then have "e = ValueError" using e strptime_error by blast
  moreover have "try_formats fmts s = Inr None" using Cons by simp
  ultimately show ?case using e by simp
qed

lemma parse_date_unparseable:
  assumes "\<forall>fmt\<in>set DATE_FORMATS. \<exists>e. strptime (take 10 (strip s)) fmt = Inl e"
  shows "parse_date (Some s) = Inr None"
  using try_formats_unparseable[OF subset_refl assms] by (simp add: parse_date_def)

definition unparseable_text :: string where
  \<comment> \<open>a loss date that is not in the calendar and an amount that is not a number\<close>
  "unparseable_text =
     ''DATE OF LOSS AND TIME 02/30/2024'' @ [newline] @ ''ESTIMATE AMOUNT: 1.2.3''"

definition unparseable_record :: ExtractedFields where
  \<comment> \<open>the empty record with an asset that holds no estimate\<close>
  "unparseable_record =
     empty_record \<lparr>
       asset := Some \<lparr> asset_type = Some ''vehicle'', asset_id = None, make_field = None,
                       model = None, year = None, estimated_damage = None,
                       AssetDetails.initial_estimate = None \<rparr> \<rparr>"

lemma extract_unparseable: "extract_from_text unparseable_text = Inr unparseable_record"
  by (simp add: unparseable_text_def unparseable_record_def empty_record_def
      extractor_defs pattern_defs parse_defs rx_eval)

text \<open>
  Claim C4. For every ASCII text the extractor returns a record and raises no error; on
  the empty text the record has every field absent. The helpers \<open>_parse_float\<close>,
  \<open>_parse_date\<close> and \<open>_parse_year\<close> return a value or the no-value marker on every ASCII
  string and on the absent one: where \<open>float\<close> raises on the digits and periods of the
  string, \<open>_parse_float\<close> returns the no-value marker, and where \<open>strptime\<close> raises for each of
  the four formats, \<open>_parse_date\<close> returns the no-value marker.
\<close>

theorem extractor_never_raises:
  assumes "ascii text" and "ascii s"
  shows "(\<exists>r. extract_from_raw_text text = Inr r \<and> extract_from_text text = Inr r) \<and>
   extract_from_text [] = Inr empty_record \<and>
   (\<exists>v. parse_float (Some s) = Inr v) \<and>
   ((\<exists>e. py_float (filter (\<lambda>c. is_digit c \<or> c = CHR ''.'') s) = Inl e) \<longrightarrow>
      parse_float (Some s) = Inr None) \<and>
   (\<exists>d. parse_date (Some s) = Inr d) \<and>
   ((\<forall>fmt\<in>set DATE_FORMATS. \<exists>e. strptime (take 10 (strip s)) fmt = Inl e) \<longrightarrow>
      parse_date (Some s) = Inr None) \<and>
   (\<exists>y. parse_year (Some s) = Inr y) \<and>
   parse_float None = Inr None \<and> parse_date None = Inr None \<and> parse_year None = Inr None"
proof -
  have "\<exists>r. extract_from_raw_text text = Inr r \<and> extract_from_text text = Inr r"
    using extract_from_raw_text_spec[of "text"] by (auto simp: extract_from_text_def)
  moreover have "parse_float None = Inr None" "parse_date None = Inr None"
    "parse_year None = Inr None"
    by (simp_all add: parse_float_def parse_date_def parse_year_def)
  ultimately show ?thesis
    using extract_empty parse_float_total parse_date_total parse_year_total
      parse_float_unparseable parse_date_unparseable
    by blast
qed

theorem extractor_never_raises_witness:
  "ascii unparseable_text \<and> ascii ''1.2.3'' \<and> ascii ''02/30/2024'' \<and>
   extract_from_text unparseable_text = Inr unparseable_record \<and>
   py_float (filter (\<lambda>c. is_digit c \<or> c = CHR ''.'') ''1.2.3'') = Inl ValueError \<and>
   parse_float (Some ''1.2.3'') = Inr None \<and>
   list_all (\<lambda>fmt. strptime (take 10 (strip ''02/30/2024'')) fmt = Inl ValueError) DATE_FORMATS \<and>
   parse_date (Some ''02/30/2024'') = Inr None"
proof -
  have a: "ascii unparseable_text" "ascii ''1.2.3''" "ascii ''02/30/2024''"
    by (simp_all add: ascii_def unparseable_text_def newline_def)
  have f: "py_float (filter (\<lambda>c. is_digit c \<or> c = CHR ''.'') ''1.2.3'') = Inl ValueError"
    by (simp add: parse_defs rx_eval)
  have d: "list_all (\<lambda>fmt. strptime (take 10 (strip ''02/30/2024'')) fmt = Inl ValueError)
      DATE_FORMATS"
    by (simp add: parse_defs rx_eval)
  then have d': "\<forall>fmt\<in>set DATE_FORMATS. \<exists>e. strptime (take 10 (strip ''02/30/2024'')) fmt = Inl e"
    unfolding list_all_iff by blast
  note t1 = extractor_never_raises[OF a(1) a(2)]
  note t2 = extractor_never_raises[OF a(1) a(3)]
  have 1: "parse_float (Some ''1.2.3'') = Inr None"
    using t1 f by blast
  have 2: "parse_date (Some ''02/30/2024'') = Inr None"
    using t2 d' by blast
  show ?thesis
    using a f d 1 2 extract_unparseable by simp
qed

end
